theory Spec2Isabelle
  imports Main "HOL-Library.Sublist"
begin

section \<open>Strings as the service sees them\<close>

text \<open>
  The service (\<^verbatim>\<open>src/services/htmlToNotionService.ts\<close>) works on JavaScript strings.
  They are modelled as \<^typ>\<open>string\<close>; a \<^typ>\<open>char\<close> stands for one code unit.  White
  space and line terminators are the ASCII ones (tab, line feed, vertical tab, form feed,
  carriage return, space); the Chinese literals of the source are kept as their UTF-8
  bytes, none of which is white space or markup.  On ASCII input the definitions below
  compute what the TypeScript computes.
\<close>

definition is_space :: "char \<Rightarrow> bool" where
  "is_space c = (c = CHR 0x09 \<or> c = CHR 0x0A \<or> c = CHR 0x0B \<or> c = CHR 0x0C
                 \<or> c = CHR 0x0D \<or> c = CHR '' '')"

definition is_line_terminator :: "char \<Rightarrow> bool" where
  "is_line_terminator c = (c = CHR 0x0A \<or> c = CHR 0x0D)"

text \<open>\<^verbatim>\<open>String.prototype.trim\<close>.\<close>

definition trim :: "string \<Rightarrow> string" where
  "trim s = rev (dropWhile is_space (rev (dropWhile is_space s)))"

text \<open>\<^verbatim>\<open>String.prototype.toLowerCase\<close> on ASCII letters.\<close>

definition lower_char :: "char \<Rightarrow> char" where
  "lower_char c =
     (case map_of (zip ''ABCDEFGHIJKLMNOPQRSTUVWXYZ'' ''abcdefghijklmnopqrstuvwxyz'') c of
        Some d \<Rightarrow> d
      | None \<Rightarrow> c)"

definition toLowerCase :: "string \<Rightarrow> string" where
  "toLowerCase s = map lower_char s"

text \<open>\<^verbatim>\<open>s.startsWith(p)\<close> and \<^verbatim>\<open>s.endsWith(p)\<close>.\<close>

fun startsWith :: "string \<Rightarrow> string \<Rightarrow> bool" where
  "startsWith s [] = True"
| "startsWith [] (p # ps) = False"
| "startsWith (c # cs) (p # ps) = (c = p \<and> startsWith cs ps)"

definition endsWith :: "string \<Rightarrow> string \<Rightarrow> bool" where
  "endsWith s p = startsWith (rev s) (rev p)"

text \<open>
  \<^verbatim>\<open>s.indexOf(p)\<close>: the position of the first occurrence, \<open>None\<close> for \<^verbatim>\<open>-1\<close>.  The source
  always searches from the current position \<^verbatim>\<open>i\<close>; the model passes the suffix that
  starts there, so positions are relative to \<^verbatim>\<open>i\<close>.
\<close>

fun indexOf :: "string \<Rightarrow> string \<Rightarrow> nat option" where
  "indexOf [] p = (if p = [] then Some 0 else None)"
| "indexOf (c # cs) p =
     (if startsWith (c # cs) p then Some 0 else map_option Suc (indexOf cs p))"

definition includes_str :: "string \<Rightarrow> string \<Rightarrow> bool" where
  "includes_str s p = (indexOf s p \<noteq> None)"

text \<open>\<^verbatim>\<open>s.split('\n')\<close>: never empty, the empty string gives one empty line.\<close>

fun split_newline :: "string \<Rightarrow> string list" where
  "split_newline [] = [[]]"
| "split_newline (c # cs) =
     (if c = CHR 0x0A then [] # split_newline cs
      else (case split_newline cs of
              [] \<Rightarrow> [[c]]
            | l # ls \<Rightarrow> (c # l) # ls))"

text \<open>
  \<^verbatim>\<open>s.replace(/p/g, r)\<close> for a literal, non-empty pattern \<open>p\<close> and a replacement
  without \<^verbatim>\<open>$\<close>: every occurrence, left to right, not overlapping.
\<close>

function replace_all :: "string \<Rightarrow> string \<Rightarrow> string \<Rightarrow> string" where
  "replace_all p r [] = []"
| "replace_all p r (c # cs) =
     (if p \<noteq> [] \<and> startsWith (c # cs) p
      then r @ replace_all p r (drop (length p) (c # cs))
      else c # replace_all p r cs)"
  by pat_completeness auto
termination
  by (relation "measure (\<lambda>(p, r, s). length s)") (auto simp: neq_Nil_conv)

section \<open>Language Normalizer\<close>

text \<open>
  \<^verbatim>\<open>normalizeLanguage\<close> looks the cleaned name up in \<^verbatim>\<open>languageMap\<close>, an object literal.
  A property read on an object literal also finds the members of \<^verbatim>\<open>Object.prototype\<close>,
  and those are objects, not strings; the value of the lookup is therefore a
  \<open>js_value\<close>.
\<close>

datatype js_value =
    JsString string
  | JsInherited string  \<comment> \<open>the member of \<^verbatim>\<open>Object.prototype\<close> of that name\<close>

definition languageMap_own :: "(string \<times> string) list" where
  "languageMap_own =
     [(''js'', ''javascript''), (''ts'', ''typescript''), (''py'', ''python''),
      (''rb'', ''ruby''), (''sh'', ''shell''), (''bash'', ''shell''), (''zsh'', ''shell''),
      (''yml'', ''yaml''), (''md'', ''markdown''), (''jsx'', ''javascript''),
      (''tsx'', ''typescript'')]"

definition object_prototype_members :: "string list" where
  "object_prototype_members =
     [''constructor'', ''__defineGetter__'', ''__defineSetter__'', ''hasOwnProperty'',
      ''__lookupGetter__'', ''__lookupSetter__'', ''isPrototypeOf'',
      ''propertyIsEnumerable'', ''toString'', ''valueOf'', ''__proto__'',
      ''toLocaleString'']"

text \<open>\<^verbatim>\<open>languageMap[language]\<close>; \<open>None\<close> is \<^verbatim>\<open>undefined\<close>.\<close>

definition languageMap :: "string \<Rightarrow> js_value option" where
  "languageMap k =
     (case map_of languageMap_own k of
        Some v \<Rightarrow> Some (JsString v)
      | None \<Rightarrow> if k \<in> set object_prototype_members then Some (JsInherited k) else None)"

definition supportedLanguages :: "string list" where
  "supportedLanguages =
     [''javascript'', ''typescript'', ''python'', ''java'', ''c'', ''c++'', ''c#'',
      ''ruby'', ''go'', ''rust'', ''php'', ''swift'', ''kotlin'', ''scala'',
      ''html'', ''css'', ''scss'', ''sass'', ''less'', ''json'', ''xml'', ''yaml'',
      ''markdown'', ''sql'', ''shell'', ''bash'', ''powershell'',
      ''dockerfile'', ''docker'', ''makefile'', ''plain text'']"

text \<open>
  Every value \<^verbatim>\<open>languageMap\<close> can give is truthy (a non-empty string, a function or an
  object), so \<^verbatim>\<open>if (languageMap[language])\<close> is the test for a defined value.
\<close>

definition normalizeLanguage :: "string \<Rightarrow> js_value" where
  "normalizeLanguage language =
     (if language = [] \<or> language = ''plain text'' then JsString ''plain text''
      else
        let language = trim (toLowerCase language) in
        (case languageMap language of
           Some v \<Rightarrow> v
         | None \<Rightarrow>
             if language \<in> set supportedLanguages then JsString language
             else JsString ''plain text''))"

section \<open>Inline Rich-Text Tokenizer\<close>

text \<open>
  \<^verbatim>\<open>stripHtmlTags\<close>.  The first replacement, \<^verbatim>\<open>/<[^>]*>/g\<close> by the empty string, removes
  every stretch from a \<^verbatim>\<open><\<close> to the next \<^verbatim>\<open>>\<close>; a \<^verbatim>\<open><\<close> with no \<^verbatim>\<open>>\<close> after it stays.
\<close>

function remove_tags :: "string \<Rightarrow> string" where
  "remove_tags [] = []"
| "remove_tags (c # cs) =
     (if c = CHR ''<'' then
        (case indexOf cs ''>'' of
           Some k \<Rightarrow> remove_tags (drop (Suc k) cs)
         | None \<Rightarrow> c # remove_tags cs)
      else c # remove_tags cs)"
  by pat_completeness auto
termination
  by (relation "measure length") auto

definition stripHtmlTags :: "string \<Rightarrow> string" where
  "stripHtmlTags html =
     (let text = remove_tags html;
          text = replace_all ''&lt;'' ''<'' text;
          text = replace_all ''&gt;'' ''>'' text;
          text = replace_all ''&amp;'' ''&'' text;
          text = replace_all ''&quot;'' [CHR 0x22] text;
          text = replace_all ''&#39;'' [CHR 0x27] text
      in trim text)"

text \<open>
  A rich-text item of the remote API: \<^verbatim>\<open>{ type: 'text', text: { content }, annotations }\<close>.
  An item built without the \<^verbatim>\<open>annotations\<close> key has the empty list.
\<close>

datatype annotation = Bold | Italic | Code | Strikethrough | Color string

record rich_text =
  text_content :: string
  annotations :: "annotation list"

definition plain_run :: "string \<Rightarrow> rich_text" where
  "plain_run t = \<lparr>text_content = t, annotations = []\<rparr>"

definition styled_run :: "string \<Rightarrow> annotation \<Rightarrow> rich_text" where
  "styled_run t a = \<lparr>text_content = t, annotations = [a]\<rparr>"

text \<open>\<^verbatim>\<open>if (currentText) { richText.push(...); currentText = '' }\<close>.\<close>

definition flush :: "string \<Rightarrow> rich_text list \<Rightarrow> rich_text list" where
  "flush currentText richText =
     (if currentText \<noteq> [] then richText @ [plain_run currentText] else richText)"

text \<open>
  One styled tag: \<open>rest\<close> is the text after the opening tag.  With the closing tag at
  \<open>closeTag\<close> the run is pushed and the scan resumes \<open>skip\<close> characters later; without
  it nothing is pushed and the scan resumes right after the opening tag.
\<close>

definition styled_step ::
  "string \<Rightarrow> nat option \<Rightarrow> nat \<Rightarrow> annotation \<Rightarrow> rich_text list \<Rightarrow> string \<times> rich_text list" where
  "styled_step rest closeTag skip a richText =
     (case closeTag of
        Some k \<Rightarrow> (drop (k + skip) rest, richText @ [styled_run (stripHtmlTags (take k rest)) a])
      | None \<Rightarrow> (rest, richText))"

text \<open>
  What the body of the \<^verbatim>\<open>while\<close> loop does with a tag that has been read: \<open>tag\<close> is
  \<^verbatim>\<open>html.substring(i, tagEnd + 1)\<close> and \<open>rest\<close> the text from \<^verbatim>\<open>tagEnd + 1\<close> on.
\<close>

definition tag_step :: "string \<Rightarrow> string \<Rightarrow> rich_text list \<Rightarrow> string \<times> rich_text list" where
  "tag_step tag rest richText =
     (if startsWith tag ''<strong>'' then
        styled_step rest (indexOf rest ''</strong>'') 9 Bold richText
      else if startsWith tag ''<em>'' then
        styled_step rest (indexOf rest ''</em>'') 5 Italic richText
      else if startsWith tag ''<code>'' then
        styled_step rest (indexOf rest ''</code>'') 7 Code richText
      else if startsWith tag ''<del>'' \<or> startsWith tag ''<s>'' then
        styled_step rest
          (if indexOf rest ''</del>'' \<noteq> None then indexOf rest ''</del>''
           else indexOf rest ''</s>'')
          (if indexOf rest ''</del>'' \<noteq> None then 6 else 4)
          Strikethrough richText
      else (rest, richText))"

lemma tag_step_length: "length (fst (tag_step tag rest richText)) \<le> length rest"
  by (simp add: tag_step_def styled_step_def split: option.split)

text \<open>
  The \<^verbatim>\<open>while (i < html.length)\<close> loop; the first argument is the text from \<^verbatim>\<open>i\<close> on.
  \<^verbatim>\<open>break\<close> (no \<^verbatim>\<open>>\<close> after a \<^verbatim>\<open><\<close>) leaves the loop with \<^verbatim>\<open>currentText\<close> already
  flushed.
\<close>

function richText_loop :: "string \<Rightarrow> string \<Rightarrow> rich_text list \<Rightarrow> rich_text list" where
  "richText_loop [] currentText richText = flush currentText richText"
| "richText_loop (c # cs) currentText richText =
     (if c = CHR ''<'' then
        (case indexOf (c # cs) ''>'' of
           None \<Rightarrow> flush currentText richText
         | Some tagEnd \<Rightarrow>
             (case tag_step (take (Suc tagEnd) (c # cs)) (drop (Suc tagEnd) (c # cs))
                     (flush currentText richText) of
                (rest, richText') \<Rightarrow> richText_loop rest [] richText'))
      else richText_loop cs (currentText @ [c]) richText)"
  by pat_completeness auto
termination
proof (relation "measure (\<lambda>(s, t, r). length s)", goal_cases)
  case 1
  show ?case by simp
next
  case (2 c cs currentText richText tagEnd rest richText')
  from 2(3) have "rest = fst (tag_step (take (Suc tagEnd) (c # cs))
      (drop (Suc tagEnd) (c # cs)) (flush currentText richText))"
    by (metis fst_conv)
  then have "length rest \<le> length (drop (Suc tagEnd) (c # cs))"
    by (simp only: tag_step_length)
  then show ?case by simp
next
  case (3 c cs currentText richText)
  show ?case by simp
qed

definition htmlToRichText :: "string \<Rightarrow> rich_text list" where
  "htmlToRichText html =
     (let richText = richText_loop html [] []
      in if richText \<noteq> [] then richText else [plain_run html])"

section \<open>Title resolution\<close>

text \<open>
  \<^verbatim>\<open>extractTitleFromContent\<close> tries \<^verbatim>\<open>/^#\s+(.+)$/m\<close>, then \<^verbatim>\<open>/^##\s+(.+)$/m\<close>.
  \<open>match_atx marker s\<close> is the match of the pattern with \<open>s\<close> starting at a line
  start; it gives the group.  \<^verbatim>\<open>\s+\<close> is greedy: it first takes the whole run of white
  space (which may cross line ends), and \<^verbatim>\<open>(.+)\<close> then takes the rest of the line.  Only
  when the white space runs to the end of the input does \<^verbatim>\<open>\s+\<close> give characters back,
  one at a time and never its first, until \<^verbatim>\<open>.\<close> accepts the one given back
  (\<open>backtrack_ws\<close>).
\<close>

fun backtrack_ws :: "nat \<Rightarrow> string \<Rightarrow> string option" where
  "backtrack_ws 0 ws = None"
| "backtrack_ws (Suc k) ws =
     (if \<not> is_line_terminator (ws ! Suc k)
      then Some (takeWhile (\<lambda>c. \<not> is_line_terminator c) (drop (Suc k) ws))
      else backtrack_ws k ws)"

definition match_atx :: "string \<Rightarrow> string \<Rightarrow> string option" where
  "match_atx marker s =
     (if \<not> startsWith s marker then None
      else
        let r = drop (length marker) s;
            ws = takeWhile is_space r;
            after = dropWhile is_space r
        in if ws = [] then None
           else if after \<noteq> [] then Some (takeWhile (\<lambda>c. \<not> is_line_terminator c) after)
           else backtrack_ws (length ws - 1) ws)"

text \<open>
  The leftmost match: with the \<^verbatim>\<open>m\<close> flag \<^verbatim>\<open>^\<close> holds at the start of the input and
  after every line terminator.
\<close>

fun find_atx :: "string \<Rightarrow> bool \<Rightarrow> string \<Rightarrow> string option" where
  "find_atx marker at_line_start [] = None"
| "find_atx marker at_line_start (c # cs) =
     (case (if at_line_start then match_atx marker (c # cs) else None) of
        Some g \<Rightarrow> Some g
      | None \<Rightarrow> find_atx marker (is_line_terminator c) cs)"

text \<open>\<^verbatim>\<open>firstLine.replace(/^#+\s*/, '')\<close>.\<close>

definition strip_hashes :: "string \<Rightarrow> string" where
  "strip_hashes l =
     (if startsWith l ''#'' then dropWhile is_space (dropWhile (\<lambda>c. c = CHR ''#'') l)
      else l)"

text \<open>The placeholder title, a fixed Chinese literal, in UTF-8.\<close>

definition untitled :: string where
  "untitled = [CHR 0xE6, CHR 0x9C, CHR 0xAA, CHR 0xE5, CHR 0x91, CHR 0xBD, CHR 0xE5, CHR 0x90,
               CHR 0x8D, CHR 0xE6, CHR 0x96, CHR 0x87, CHR 0xE6, CHR 0xA1, CHR 0xA3]"

text \<open>\<^verbatim>\<open>content.split('\n')[0]\<close>.\<close>

definition firstLine :: "string \<Rightarrow> string" where
  "firstLine md = (case split_newline md of [] \<Rightarrow> [] | l # ls \<Rightarrow> l)"

definition extractTitleFromContent :: "string \<Rightarrow> string" where
  "extractTitleFromContent md =
     (case find_atx ''#'' True md of
        Some g \<Rightarrow> trim g
      | None \<Rightarrow>
          (case find_atx ''##'' True md of
             Some g \<Rightarrow> trim g
           | None \<Rightarrow>
               if firstLine md \<noteq> [] then trim (strip_hashes (firstLine md))
               else untitled))"

section \<open>HTML Element Scanner\<close>

text \<open>
  The scanner uses unanchored regular expressions; \<open>find_first m s\<close> is the leftmost
  position of \<open>s\<close> at which the matcher \<open>m\<close> succeeds, with what it gives there.
\<close>

fun find_first :: "(string \<Rightarrow> 'a option) \<Rightarrow> string \<Rightarrow> 'a option" where
  "find_first m [] = m []"
| "find_first m (c # cs) = (case m (c # cs) of Some r \<Rightarrow> Some r | None \<Rightarrow> find_first m cs)"

text \<open>
  The lazy group \<^verbatim>\<open>(.*?)\<close> followed by a closing pattern: the text up to the first
  position where the closing pattern matches, provided no line terminator comes before it
  (\<^verbatim>\<open>.\<close> does not match one).
\<close>

fun lazy_dot :: "(string \<Rightarrow> bool) \<Rightarrow> string \<Rightarrow> string option" where
  "lazy_dot closes [] = (if closes [] then Some [] else None)"
| "lazy_dot closes (c # cs) =
     (if closes (c # cs) then Some []
      else if is_line_terminator c then None
      else map_option ((#) c) (lazy_dot closes cs))"

text \<open>\<^verbatim>\<open>/<open>(.*?)<\/close>/\<close> for literal tags, as used for blockquote, li, tr and p.\<close>

definition match_between :: "string \<Rightarrow> string \<Rightarrow> string \<Rightarrow> string option" where
  "match_between opener closer line =
     find_first (\<lambda>t. if startsWith t opener
                      then lazy_dot (\<lambda>u. startsWith u closer) (drop (length opener) t)
                      else None) line"

text \<open>\<^verbatim>\<open>/<pre><code([^>]*)>([\s\S]*?)<\/code><\/pre>/\<close> at the start of \<open>s\<close>: the attribute
  text, the interior and what follows the span.\<close>

definition code_span_at :: "string \<Rightarrow> (string \<times> string \<times> string) option" where
  "code_span_at s =
     (if \<not> startsWith s ''<pre><code'' then None
      else
        let r = drop 10 s in
        (case indexOf r ''>'' of
           None \<Rightarrow> None
         | Some a \<Rightarrow>
             let body = drop (Suc a) r in
             (case indexOf body ''</code></pre>'' of
                None \<Rightarrow> None
              | Some k \<Rightarrow> Some (take a r, take k body, drop (k + 13) body))))"

lemma code_span_at_shorter:
  "code_span_at s = Some (attrs, interior, rest) \<Longrightarrow> length rest < length s"
  by (auto simp: code_span_at_def Let_def split: if_splits option.splits
           elim: startsWith.elims)

text \<open>The escape of the pre-pass: \<^verbatim>\<open>content.replace(/\n/g, '\\n')\<close>, a line feed becomes a
  backslash and the letter n.\<close>

definition escape_newlines :: "string \<Rightarrow> string" where
  "escape_newlines interior = replace_all [CHR 0x0A] [CHR 0x5C, CHR ''n''] interior"

function preprocessCodeBlocks :: "string \<Rightarrow> string" where
  "preprocessCodeBlocks [] = []"
| "preprocessCodeBlocks (c # cs) =
     (case code_span_at (c # cs) of
        Some (attrs, interior, rest) \<Rightarrow>
          ''<pre><code'' @ attrs @ ''>'' @ escape_newlines interior @ ''</code></pre>''
            @ preprocessCodeBlocks rest
      | None \<Rightarrow> c # preprocessCodeBlocks cs)"
  by pat_completeness auto
termination
  by (relation "measure length") (auto dest: code_span_at_shorter)

text \<open>\<^verbatim>\<open>/<img\s+([^>]*)\s*\/?>/\<close> at the start of \<open>s\<close>.  The greedy \<^verbatim>\<open>[^>]*\<close> takes
  everything up to the next \<^verbatim>\<open>>\<close>, a trailing blank and slash included, and leaves
  nothing to \<^verbatim>\<open>\s*\/?\<close>.\<close>

definition img_at :: "string \<Rightarrow> string option" where
  "img_at s =
     (if \<not> startsWith s ''<img'' then None
      else
        let r = drop 4 s in
        if takeWhile is_space r = [] then None
        else
          let r' = dropWhile is_space r in
          (case indexOf r' ''>'' of
             None \<Rightarrow> None
           | Some k \<Rightarrow> Some (take k r')))"

text \<open>\<^verbatim>\<open>parseAttributes\<close>: the loop over \<^verbatim>\<open>/(\w+)=["']([^"']*)["']/g\<close>.\<close>

definition is_word :: "char \<Rightarrow> bool" where
  "is_word c =
     (c \<in> set ''abcdefghijklmnopqrstuvwxyzABCDEFGHIJKLMNOPQRSTUVWXYZ0123456789_'')"

definition is_quote :: "char \<Rightarrow> bool" where
  "is_quote c = (c = CHR 0x22 \<or> c = CHR 0x27)"

text \<open>The pattern at the start of \<open>s\<close>: name, value and the text after the match.\<close>

definition attr_at :: "string \<Rightarrow> (string \<times> string \<times> string) option" where
  "attr_at s =
     (let w = takeWhile is_word s; r = dropWhile is_word s in
      if w = [] then None
      else (case r of
              e # q # r' \<Rightarrow>
                if e = CHR ''='' \<and> is_quote q then
                  (case dropWhile (\<lambda>c. \<not> is_quote c) r' of
                     [] \<Rightarrow> None
                   | q' # rest \<Rightarrow> Some (w, takeWhile (\<lambda>c. \<not> is_quote c) r', rest))
                else None
            | _ \<Rightarrow> None))"

lemma attr_at_shorter: "attr_at s = Some (w, v, rest) \<Longrightarrow> length rest < length s"
proof -
  assume a: "attr_at s = Some (w, v, rest)"
  then obtain e q r' q' where r: "dropWhile is_word s = e # q # r'"
    and d: "dropWhile (\<lambda>c. \<not> is_quote c) r' = q' # rest"
    by (auto simp: attr_at_def Let_def split: if_splits list.splits)
  have "length rest < length r'"
    using length_dropWhile_le [of "\<lambda>c. \<not> is_quote c" r'] d by simp
  moreover have "length r' < length s"
    using length_dropWhile_le [of is_word s] r by simp
  ultimately show ?thesis by simp
qed

text \<open>\<^verbatim>\<open>attrs[name] = value\<close> on an object literal.  Storing a string under
  \<^verbatim>\<open>__proto__\<close> creates no property; any other name is created or overwritten.\<close>

fun attr_update :: "string \<Rightarrow> string \<Rightarrow> (string \<times> string) list \<Rightarrow> (string \<times> string) list" where
  "attr_update k v [] = [(k, v)]"
| "attr_update k v ((k', v') # kvs) =
     (if k' = k then (k, v) # kvs else (k', v') # attr_update k v kvs)"

definition attr_set :: "string \<Rightarrow> string \<Rightarrow> (string \<times> string) list \<Rightarrow> (string \<times> string) list" where
  "attr_set k v attrs = (if k = ''__proto__'' then attrs else attr_update k v attrs)"

function parseAttributes_loop :: "string \<Rightarrow> (string \<times> string) list \<Rightarrow> (string \<times> string) list" where
  "parseAttributes_loop [] attrs = attrs"
| "parseAttributes_loop (c # cs) attrs =
     (case attr_at (c # cs) of
        Some (w, v, rest) \<Rightarrow> parseAttributes_loop rest (attr_set w v attrs)
      | None \<Rightarrow> parseAttributes_loop cs attrs)"
  by pat_completeness auto
termination
  by (relation "measure (\<lambda>(s, a). length s)") (auto dest: attr_at_shorter)

definition parseAttributes :: "string \<Rightarrow> (string \<times> string) list" where
  "parseAttributes attrString = parseAttributes_loop attrString []"

text \<open>\<^verbatim>\<open>/<h([1-6])>(.*?)<\/h[1-6]>/\<close> at the start of \<open>s\<close>: the digit and the inner HTML.\<close>

definition is_level :: "char \<Rightarrow> bool" where
  "is_level d = (d \<in> set ''123456'')"

definition closes_heading :: "string \<Rightarrow> bool" where
  "closes_heading s =
     (case s of
        a # b # c # d # e # _ \<Rightarrow>
          a = CHR ''<'' \<and> b = CHR ''/'' \<and> c = CHR ''h'' \<and> is_level d \<and> e = CHR ''>''
      | _ \<Rightarrow> False)"

definition heading_at :: "string \<Rightarrow> (char \<times> string) option" where
  "heading_at s =
     (case s of
        a # b # d # e # r \<Rightarrow>
          if a = CHR ''<'' \<and> b = CHR ''h'' \<and> is_level d \<and> e = CHR ''>''
          then map_option (Pair d) (lazy_dot closes_heading r)
          else None
      | _ \<Rightarrow> None)"

text \<open>\<^verbatim>\<open>/<pre><code(?:\s+class="([^"]*)")?>([\s\S]*?)<\/code><\/pre>/\<close> at the start of \<open>s\<close>:
  the class (\<open>None\<close> when the optional group did not take part) and the interior.  The
  group is tried first and the match without it second.\<close>

definition code_body :: "string \<Rightarrow> string option" where
  "code_body r =
     (if startsWith r ''>'' then
        (case indexOf (drop 1 r) ''</code></pre>'' of
           None \<Rightarrow> None
         | Some k \<Rightarrow> Some (take k (drop 1 r)))
      else None)"

definition code_block_with_class :: "string \<Rightarrow> (string option \<times> string) option" where
  "code_block_with_class r =
     (let r1 = dropWhile is_space r in
      if takeWhile is_space r \<noteq> [] \<and> startsWith r1 (''class='' @ [CHR 0x22]) then
        (let r2 = drop 7 r1 in
         (case indexOf r2 [CHR 0x22] of
            None \<Rightarrow> None
          | Some k \<Rightarrow> map_option (Pair (Some (take k r2))) (code_body (drop (Suc k) r2))))
      else None)"

definition code_block_at :: "string \<Rightarrow> (string option \<times> string) option" where
  "code_block_at s =
     (if \<not> startsWith s ''<pre><code'' then None
      else
        let r = drop 10 s in
        (case code_block_with_class r of
           Some m \<Rightarrow> Some m
         | None \<Rightarrow> map_option (Pair None) (code_body r)))"

text \<open>
  \<^verbatim>\<open>language.replace(/.*language-([^\s]+).*/, '$1')\<close>.  The leading \<^verbatim>\<open>.*\<close> is greedy and
  stays on one line, so within the first line that has an occurrence of \<^verbatim>\<open>language-\<close>
  followed by a character that is not white space, the last such occurrence is taken;
  that whole line is replaced by the group.
\<close>

fun find_last :: "(string \<Rightarrow> 'a option) \<Rightarrow> string \<Rightarrow> 'a option" where
  "find_last m [] = m []"
| "find_last m (c # cs) = (case find_last m cs of Some r \<Rightarrow> Some r | None \<Rightarrow> m (c # cs))"

definition language_at :: "string \<Rightarrow> string option" where
  "language_at s =
     (if startsWith s ''language-'' \<and> takeWhile (\<lambda>c. \<not> is_space c) (drop 9 s) \<noteq> []
      then Some (takeWhile (\<lambda>c. \<not> is_space c) (drop 9 s))
      else None)"

function clean_language :: "string \<Rightarrow> string" where
  "clean_language s =
     (let seg = takeWhile (\<lambda>c. \<not> is_line_terminator c) s;
          rest = dropWhile (\<lambda>c. \<not> is_line_terminator c) s
      in (case find_last language_at seg of
            Some g \<Rightarrow> g @ rest
          | None \<Rightarrow> (case rest of [] \<Rightarrow> seg | t # rest' \<Rightarrow> seg @ t # clean_language rest')))"
  by pat_completeness auto
termination
proof (relation "measure length", goal_cases)
  case 1
  show ?case by simp
next
  case (2 s seg rest t rest')
  then have "dropWhile (\<lambda>c. \<not> is_line_terminator c) s = t # rest'" by simp
  then have "length rest' < length s"
    using length_dropWhile_le [of "\<lambda>c. \<not> is_line_terminator c" s] by simp
  then show ?case by simp
qed

declare clean_language.simps [simp del]

text \<open>The cells of a table row: the loop over \<^verbatim>\<open>/<t[hd]>(.*?)<\/t[hd]>/g\<close>, each cell
  through \<^verbatim>\<open>stripHtmlTags\<close>.\<close>

definition closes_cell :: "string \<Rightarrow> bool" where
  "closes_cell s = (startsWith s ''</th>'' \<or> startsWith s ''</td>'')"

definition cell_at :: "string \<Rightarrow> string option" where
  "cell_at s =
     (if startsWith s ''<th>'' \<or> startsWith s ''<td>'' then lazy_dot closes_cell (drop 4 s)
      else None)"

function row_cells :: "string \<Rightarrow> string list" where
  "row_cells [] = []"
| "row_cells (c # cs) =
     (case cell_at (c # cs) of
        Some g \<Rightarrow> stripHtmlTags g # row_cells (drop (4 + length g + 5) (c # cs))
      | None \<Rightarrow> row_cells cs)"
  by pat_completeness auto
termination
  by (relation "measure length") auto

text \<open>
  A scanned element, \<^verbatim>\<open>{tag, content, attributes?}\<close>.  The scanner builds three shapes of
  \<^verbatim>\<open>attributes\<close>: the parsed attributes of an image, \<^verbatim>\<open>{ language }\<close> of a code block and
  \<^verbatim>\<open>{ cells }\<close> of a table row.
\<close>

datatype attributes =
    ImgAttrs "(string \<times> string) list"
  | LanguageAttr js_value
  | CellsAttr "string list"

record element =
  tag :: string
  content :: string
  attributes :: "attributes option"

text \<open>The language of a matched code block (\<^verbatim>\<open>codeBlockMatch[1] || 'plain text'\<close>, the
  cleaning and the normalization).\<close>

definition code_language :: "string option \<Rightarrow> js_value" where
  "code_language cls =
     (let language = (case cls of None \<Rightarrow> ''plain text''
                      | Some c \<Rightarrow> if c = [] then ''plain text'' else c);
          language = (if includes_str language ''language-'' then clean_language language
                      else language)
      in normalizeLanguage language)"

definition is_table_structure :: "string \<Rightarrow> bool" where
  "is_table_structure l =
     (includes_str l ''<table>'' \<or> includes_str l ''</table>'' \<or> includes_str l ''<thead>''
      \<or> includes_str l ''</thead>'' \<or> includes_str l ''<tbody>'' \<or> includes_str l ''</tbody>'')"

text \<open>
  The body of the \<^verbatim>\<open>for (const line of lines)\<close> loop of \<^verbatim>\<open>parseHtmlElements\<close>: the
  elements one line contributes (none or one).  The rules are tried in the order of the
  source and every \<^verbatim>\<open>continue\<close> ends the line.
\<close>

definition scan_line :: "string \<Rightarrow> element list" where
  "scan_line line =
     (let trimmedLine = trim line in
      if trimmedLine = [] then []
      else
      (case find_first img_at trimmedLine of
         Some a \<Rightarrow> [\<lparr>tag = ''img'', content = [], attributes = Some (ImgAttrs (parseAttributes a))\<rparr>]
       | None \<Rightarrow>
      (case find_first heading_at trimmedLine of
         Some (d, inner) \<Rightarrow> [\<lparr>tag = [CHR ''h'', d], content = inner, attributes = None\<rparr>]
       | None \<Rightarrow>
      (case find_first code_block_at trimmedLine of
         Some (cls, interior) \<Rightarrow>
           [\<lparr>tag = ''pre'', content = interior,
             attributes = Some (LanguageAttr (code_language cls))\<rparr>]
       | None \<Rightarrow>
      (case match_between ''<blockquote>'' ''</blockquote>'' trimmedLine of
         Some inner \<Rightarrow> [\<lparr>tag = ''blockquote'', content = inner, attributes = None\<rparr>]
       | None \<Rightarrow>
      (case match_between ''<li>'' ''</li>'' trimmedLine of
         Some inner \<Rightarrow> [\<lparr>tag = ''li'', content = inner, attributes = None\<rparr>]
       | None \<Rightarrow>
      (case match_between ''<tr>'' ''</tr>'' trimmedLine of
         Some row \<Rightarrow>
           (let cells = row_cells row in
            if cells \<noteq> []
            then [\<lparr>tag = ''table-row'', content = [], attributes = Some (CellsAttr cells)\<rparr>]
            else [])
       | None \<Rightarrow>
      if is_table_structure trimmedLine then []
      else
      (case match_between ''<p>'' ''</p>'' trimmedLine of
         Some inner \<Rightarrow>
           if trim inner \<noteq> [] then [\<lparr>tag = ''p'', content = inner, attributes = None\<rparr>]
           else []
       | None \<Rightarrow>
           if \<not> startsWith trimmedLine ''<'' \<and> \<not> endsWith trimmedLine ''>''
           then [\<lparr>tag = ''p'', content = trimmedLine, attributes = None\<rparr>]
           else []))))))))"

definition parseHtmlElements :: "string \<Rightarrow> element list" where
  "parseHtmlElements html =
     (let html = preprocessCodeBlocks html;
          lines = filter (\<lambda>line. trim line \<noteq> []) (split_newline html)
      in concat (map scan_line lines))"

section \<open>Block Builder\<close>

text \<open>A block of the remote API, one constructor for each \<^verbatim>\<open>type\<close> the service builds.\<close>

datatype block =
    Heading nat "rich_text list"
  | Paragraph "rich_text list"
  | CodeBlock "rich_text list" js_value
  | Quote "rich_text list"
  | BulletedListItem "rich_text list"
  | ImageBlock string "rich_text list"
  | Callout "rich_text list" string string
  | Divider

text \<open>The \<^verbatim>\<open>type\<close> field of a block.\<close>

fun block_type :: "block \<Rightarrow> string" where
  "block_type (Heading n rt) =
     (if n = 1 then ''heading_1'' else if n = 2 then ''heading_2'' else ''heading_3'')"
| "block_type (Paragraph rt) = ''paragraph''"
| "block_type (CodeBlock rt l) = ''code''"
| "block_type (Quote rt) = ''quote''"
| "block_type (BulletedListItem rt) = ''bulleted_list_item''"
| "block_type (ImageBlock url caption) = ''image''"
| "block_type (Callout rt icon color) = ''callout''"
| "block_type Divider = ''divider''"

text \<open>The un-escape of the code block: \<^verbatim>\<open>element.content.replace(/\\n/g, '\n')\<close>, a
  backslash followed by the letter n becomes a line feed.\<close>

definition unescape_newlines :: "string \<Rightarrow> string" where
  "unescape_newlines c = replace_all [CHR 0x5C, CHR ''n''] [CHR 0x0A] c"

text \<open>\<^verbatim>\<open>cells.join(' | ')\<close>.\<close>

fun join :: "string \<Rightarrow> string list \<Rightarrow> string" where
  "join sep [] = []"
| "join sep [x] = x"
| "join sep (x # y # ys) = x @ sep @ join sep (y # ys)"

text \<open>\<^verbatim>\<open>element.attributes.src\<close> and \<^verbatim>\<open>element.attributes.alt\<close>; \<open>None\<close> is \<^verbatim>\<open>undefined\<close>.\<close>

definition attr_get :: "element \<Rightarrow> string \<Rightarrow> string option" where
  "attr_get e k = (case attributes e of Some (ImgAttrs kvs) \<Rightarrow> map_of kvs k | _ \<Rightarrow> None)"

text \<open>The fixed Chinese texts of the callout, in UTF-8.\<close>

definition callout_text :: "string option \<Rightarrow> string \<Rightarrow> string" where
  "callout_text alt src =
     [CHR 0xE5, CHR 0x9B, CHR 0xBE, CHR 0xE7, CHR 0x89, CHR 0x87, CHR 0xE6, CHR 0x97, CHR 0xA0,
      CHR 0xE6, CHR 0xB3, CHR 0x95, CHR 0xE6, CHR 0x98, CHR 0xBE, CHR 0xE7, CHR 0xA4, CHR 0xBA,
      CHR 0x3A, CHR 0x20]
     @ (case alt of
          None \<Rightarrow> [CHR 0xE5, CHR 0x9B, CHR 0xBE, CHR 0xE7, CHR 0x89, CHR 0x87]
        | Some a \<Rightarrow> if a = [] then [CHR 0xE5, CHR 0x9B, CHR 0xBE, CHR 0xE7, CHR 0x89, CHR 0x87]
                    else a)
     @ [CHR 0x0A, CHR 0xE9, CHR 0x93, CHR 0xBE, CHR 0xE6, CHR 0x8E, CHR 0xA5, CHR 0x3A, CHR 0x20]
     @ src
     @ [CHR 0x0A, CHR 0xE5, CHR 0x8E, CHR 0x9F, CHR 0xE5, CHR 0x9B, CHR 0xA0, CHR 0x3A, CHR 0x20,
        CHR 0xE5, CHR 0x9B, CHR 0xBE, CHR 0xE7, CHR 0x89, CHR 0x87, CHR 0xE9, CHR 0x93, CHR 0xBE,
        CHR 0xE6, CHR 0x8E, CHR 0xA5, CHR 0xE6, CHR 0x97, CHR 0xA0, CHR 0xE6, CHR 0xB3, CHR 0x95,
        CHR 0xE8, CHR 0xAE, CHR 0xBF, CHR 0xE9, CHR 0x97, CHR 0xAE, CHR 0xE6, CHR 0x88, CHR 0x96,
        CHR 0xE6, CHR 0x9C, CHR 0x89, CHR 0xE8, CHR 0xAE, CHR 0xBF, CHR 0xE9, CHR 0x97, CHR 0xAE,
        CHR 0xE9, CHR 0x99, CHR 0x90, CHR 0xE5, CHR 0x88, CHR 0xB6]"

definition camera_emoji :: string where
  "camera_emoji = [CHR 0xF0, CHR 0x9F, CHR 0x93, CHR 0xB7]"

text \<open>
  \<^verbatim>\<open>elementToNotionBlock\<close>.  The first argument is \<^verbatim>\<open>verifyImageUrl\<close>: whether the probe of
  a URL succeeds is decided by the network, outside the service.  \<open>None\<close> is \<^verbatim>\<open>null\<close>.
\<close>

definition elementToNotionBlock :: "(string \<Rightarrow> bool) \<Rightarrow> element \<Rightarrow> block option" where
  "elementToNotionBlock verifyImageUrl e =
     (if tag e = ''h1'' then Some (Heading 1 (htmlToRichText (content e)))
      else if tag e = ''h2'' then Some (Heading 2 (htmlToRichText (content e)))
      else if tag e = ''h3'' then Some (Heading 3 (htmlToRichText (content e)))
      else if tag e = ''p'' then
        (if trim (content e) = [] then None
         else Some (Paragraph (htmlToRichText (content e))))
      else if tag e = ''pre'' then
        Some (CodeBlock [plain_run (unescape_newlines (content e))]
                (case attributes e of
                   Some (LanguageAttr l) \<Rightarrow> if l = JsString [] then JsString ''plain text'' else l
                 | _ \<Rightarrow> JsString ''plain text''))
      else if tag e = ''blockquote'' then Some (Quote (htmlToRichText (content e)))
      else if tag e = ''li'' then Some (BulletedListItem (htmlToRichText (content e)))
      else if tag e = ''table-row'' then
        (case attributes e of
           Some (CellsAttr cells) \<Rightarrow>
             Some (Paragraph [styled_run (''| '' @ join '' | '' cells @ '' |'') Code])
         | _ \<Rightarrow> None)
      else if tag e = ''img'' then
        (case attr_get e ''src'' of
           None \<Rightarrow> None
         | Some src \<Rightarrow>
             if src = [] then None
             else if verifyImageUrl src then
               Some (ImageBlock src
                      (case attr_get e ''alt'' of
                         None \<Rightarrow> []
                       | Some alt \<Rightarrow> if alt = [] then [] else [plain_run alt]))
             else
               Some (Callout [plain_run (callout_text (attr_get e ''alt'') src)]
                      camera_emoji ''yellow_background''))
      else None)"

text \<open>The remote calls of a run, in the order they are made.\<close>

datatype event =
    VerifyImage string
  | PagesCreate string string
  | ChildrenAppend string "block list"
  | Delay nat

text \<open>The probes \<^verbatim>\<open>elementToNotionBlock\<close> awaits for one element.\<close>

definition element_probes :: "element \<Rightarrow> event list" where
  "element_probes e =
     (if tag e = ''img'' then
        (case attr_get e ''src'' of
           None \<Rightarrow> []
         | Some src \<Rightarrow> if src = [] then [] else [VerifyImage src])
      else [])"

text \<open>\<^verbatim>\<open>htmlToNotionBlocks\<close>: the blocks of the elements in scanning order, \<^verbatim>\<open>null\<close>
  results left out.\<close>

definition htmlToNotionBlocks :: "(string \<Rightarrow> bool) \<Rightarrow> string \<Rightarrow> block list" where
  "htmlToNotionBlocks verifyImageUrl html =
     List.map_filter (elementToNotionBlock verifyImageUrl) (parseHtmlElements html)"

definition htmlToNotionBlocks_probes :: "string \<Rightarrow> event list" where
  "htmlToNotionBlocks_probes html = concat (map element_probes (parseHtmlElements html))"

section \<open>Pipeline Orchestrator and Batch Submitter\<close>

text \<open>
  Modelled from the spec: \<^verbatim>\<open>createError\<close> is imported from \<^verbatim>\<open>middleware/errorHandler\<close>,
  which is not among the sources.  Section 7 of the specification has errors carry a
  human-readable message and map to a 400-class or a 500-class status; the calls
  \<^verbatim>\<open>createError(message, status)\<close> of the service pass exactly these two.
\<close>

record app_error =
  message :: string
  statusCode :: nat

definition createError :: "string \<Rightarrow> nat \<Rightarrow> app_error" where
  "createError m code = \<lparr>message = m, statusCode = code\<rparr>"

text \<open>
  What can be thrown inside the \<^verbatim>\<open>try\<close> block of \<^verbatim>\<open>markdownToNotion\<close>: an error made by
  \<^verbatim>\<open>createError\<close>, an \<^verbatim>\<open>Error\<close> of the remote client with its message, or a value that is
  not an \<^verbatim>\<open>Error\<close>.
\<close>

datatype thrown =
    Created app_error
  | ClientError string
  | NotAnError

text \<open>The \<^verbatim>\<open>catch\<close> block: \<^verbatim>\<open>error instanceof Error\<close> decides between the two messages,
  and both are raised with status 500.\<close>

definition msg_create_failed :: string where
  "msg_create_failed =
     [CHR 0xE5, CHR 0x88, CHR 0x9B, CHR 0xE5, CHR 0xBB, CHR 0xBA, CHR 0xE5, CHR 0xAD, CHR 0x90,
      CHR 0xE9, CHR 0xA1, CHR 0xB5, CHR 0xE9, CHR 0x9D, CHR 0xA2, CHR 0xE5, CHR 0xA4, CHR 0xB1,
      CHR 0xE8, CHR 0xB4, CHR 0xA5, CHR 0x3A, CHR 0x20]"

definition msg_unknown :: string where
  "msg_unknown =
     [CHR 0xE5, CHR 0x88, CHR 0x9B, CHR 0xE5, CHR 0xBB, CHR 0xBA, CHR 0xE5, CHR 0xAD, CHR 0x90,
      CHR 0xE9, CHR 0xA1, CHR 0xB5, CHR 0xE9, CHR 0x9D, CHR 0xA2, CHR 0xE8, CHR 0xBF, CHR 0x87,
      CHR 0xE7, CHR 0xA8, CHR 0x8B, CHR 0xE4, CHR 0xB8, CHR 0xAD, CHR 0xE5, CHR 0x8F, CHR 0x91,
      CHR 0xE7, CHR 0x94, CHR 0x9F, CHR 0xE6, CHR 0x9C, CHR 0xAA, CHR 0xE7, CHR 0x9F, CHR 0xA5,
      CHR 0xE9, CHR 0x94, CHR 0x99, CHR 0xE8, CHR 0xAF, CHR 0xAF]"

definition msg_missing_key :: string where
  "msg_missing_key =
     [CHR 0xE7, CHR 0xBC, CHR 0xBA, CHR 0xE5, CHR 0xB0, CHR 0x91] @ ''notion_api_key''
     @ [CHR 0xE5, CHR 0x8F, CHR 0x82, CHR 0xE6, CHR 0x95, CHR 0xB0]"

definition msg_missing_page :: string where
  "msg_missing_page =
     [CHR 0xE7, CHR 0xBC, CHR 0xBA, CHR 0xE5, CHR 0xB0, CHR 0x91] @ ''notion_page_id''
     @ [CHR 0xE5, CHR 0x8F, CHR 0x82, CHR 0xE6, CHR 0x95, CHR 0xB0]"

definition catch_block :: "thrown \<Rightarrow> app_error" where
  "catch_block error =
     (case error of
        Created e \<Rightarrow> createError (msg_create_failed @ message e) 500
      | ClientError m \<Rightarrow> createError (msg_create_failed @ m) 500
      | NotAnError \<Rightarrow> createError msg_unknown 500)"

text \<open>
  Everything outside the service that a run depends on: the Markdown converter
  (\<^verbatim>\<open>this.markdownToHtml\<close>, which falls back to a second converter and does not throw),
  the image probe, the two calls of the remote client and the clock.  The \<open>n\<close>-th call
  of \<^verbatim>\<open>blocks.children.append\<close> (counted from 0) succeeds when \<open>children_append\<close> gives \<open>None\<close>
  and throws otherwise.
\<close>

record env =
  markdownToHtml :: "string \<Rightarrow> string"
  verifyImageUrl :: "string \<Rightarrow> bool"
  pages_create :: "string \<Rightarrow> string \<Rightarrow> thrown + string"
  children_append :: "nat \<Rightarrow> string \<Rightarrow> block list \<Rightarrow> thrown option"
  toISOString :: string
  toLocaleString :: string

record HtmlToNotionResult =
  success :: bool
  notionPageId :: string
  title :: string
  timestamp :: string
  blocksCreated :: nat
  imagesProcessed :: nat
  batches :: nat

definition BATCH_SIZE :: nat where
  "BATCH_SIZE = 100"

definition created_at :: string where
  "created_at = [CHR 0xE5, CHR 0x88, CHR 0x9B, CHR 0xE5, CHR 0xBB, CHR 0xBA, CHR 0xE6, CHR 0x97,
                 CHR 0xB6, CHR 0xE9, CHR 0x97, CHR 0xB4, CHR 0x3A, CHR 0x20]"

definition timestampBlock :: "env \<Rightarrow> block" where
  "timestampBlock E =
     Paragraph [\<lparr>text_content = created_at @ toLocaleString E,
                 annotations = [Italic, Color ''gray'']\<rparr>]"

definition dividerBlock :: block where
  "dividerBlock = Divider"

text \<open>
  The \<^verbatim>\<open>for (let i = 0; i < allBlocks.length; i += BATCH_SIZE)\<close> loop, from index \<open>i\<close> with
  \<open>created\<close> blocks submitted so far (\<^verbatim>\<open>totalBlocksCreated\<close>) and the remote calls \<open>trace\<close> made so far.  A failing
  submission ends the run with what was thrown.
\<close>

function submit_batches ::
  "env \<Rightarrow> string \<Rightarrow> block list \<Rightarrow> nat \<Rightarrow> nat \<Rightarrow> event list \<Rightarrow> (thrown + nat) \<times> event list" where
  "submit_batches E pageId allBlocks i created trace =
     (if i < length allBlocks then
        (let batch = take BATCH_SIZE (drop i allBlocks);
             trace = trace @ [ChildrenAppend pageId batch]
         in (case children_append E (i div BATCH_SIZE) pageId batch of
               Some err \<Rightarrow> (Inl err, trace)
             | None \<Rightarrow>
                 submit_batches E pageId allBlocks (i + BATCH_SIZE) (created + length batch)
                   (if i + BATCH_SIZE < length allBlocks then trace @ [Delay 200] else trace)))
      else (Inr created, trace))"
  by pat_completeness auto
termination
  by (relation "measure (\<lambda>(E, pageId, allBlocks, i, created, trace). length allBlocks - i)")
     (auto simp: BATCH_SIZE_def)

declare submit_batches.simps [simp del]

text \<open>\<^verbatim>\<open>title || this.extractTitleFromContent(content)\<close>: an absent or empty title is
  falsy.\<close>

definition resolve_title :: "string option \<Rightarrow> string \<Rightarrow> string" where
  "resolve_title title_arg md =
     (case title_arg of
        None \<Rightarrow> extractTitleFromContent md
      | Some t \<Rightarrow> if t = [] then extractTitleFromContent md else t)"

text \<open>The \<^verbatim>\<open>try\<close> block of \<^verbatim>\<open>markdownToNotion\<close>, with the remote calls it makes.\<close>

definition try_block ::
  "env \<Rightarrow> string \<Rightarrow> string \<Rightarrow> string \<Rightarrow> string option
     \<Rightarrow> (thrown + HtmlToNotionResult) \<times> event list" where
  "try_block E md notionApiKey parentPageId title_arg =
     (if notionApiKey = [] then (Inl (Created (createError msg_missing_key 400)), [])
      else if parentPageId = [] then (Inl (Created (createError msg_missing_page 400)), [])
      else
        let htmlContent = markdownToHtml E md;
            blocks = htmlToNotionBlocks (verifyImageUrl E) htmlContent;
            trace = htmlToNotionBlocks_probes htmlContent;
            pageTitle = resolve_title title_arg md;
            trace = trace @ [PagesCreate parentPageId pageTitle]
        in (case pages_create E parentPageId pageTitle of
              Inl err \<Rightarrow> (Inl err, trace)
            | Inr newPageId \<Rightarrow>
                let allBlocks = timestampBlock E # dividerBlock # blocks in
                (case submit_batches E newPageId allBlocks 0 0 trace of
                   (Inl err, trace) \<Rightarrow> (Inl err, trace)
                 | (Inr totalBlocksCreated, trace) \<Rightarrow>
                     (Inr \<lparr>success = True,
                           notionPageId = newPageId,
                           title = pageTitle,
                           timestamp = toISOString E,
                           blocksCreated = totalBlocksCreated,
                           imagesProcessed =
                             length (filter (\<lambda>b. block_type b = ''image'') blocks),
                           batches = (length allBlocks + BATCH_SIZE - 1) div BATCH_SIZE\<rparr>,
                      trace))))"

text \<open>
  \<^verbatim>\<open>markdownToNotion\<close>: the result, or the error the returned promise is rejected with,
  and the remote calls made.
\<close>

definition markdownToNotion ::
  "env \<Rightarrow> string \<Rightarrow> string \<Rightarrow> string \<Rightarrow> string option
     \<Rightarrow> (app_error + HtmlToNotionResult) \<times> event list" where
  "markdownToNotion E md notionApiKey parentPageId title_arg =
     (case try_block E md notionApiKey parentPageId title_arg of
        (Inl error, trace) \<Rightarrow> (Inl (catch_block error), trace)
      | (Inr result, trace) \<Rightarrow> (Inr result, trace))"

section \<open>Notions used in the statements\<close>

text \<open>The \<^verbatim>\<open>rich_text\<close> list of a block, for the block types that have one.\<close>

definition block_rich_text :: "block \<Rightarrow> rich_text list option" where
  "block_rich_text b =
     (case b of
        Heading n rt \<Rightarrow> Some rt
      | Paragraph rt \<Rightarrow> Some rt
      | CodeBlock rt l \<Rightarrow> Some rt
      | Quote rt \<Rightarrow> Some rt
      | BulletedListItem rt \<Rightarrow> Some rt
      | ImageBlock url caption \<Rightarrow> None
      | Callout rt icon color \<Rightarrow> Some rt
      | Divider \<Rightarrow> None)"

text \<open>A text has a tag when some \<^verbatim>\<open><\<close> is followed, anywhere later, by a \<^verbatim>\<open>>\<close>; these are the
  texts in which \<^verbatim>\<open>/<[^>]*>/\<close> finds a match.\<close>

fun has_tag :: "string \<Rightarrow> bool" where
  "has_tag [] = False"
| "has_tag (c # cs) = ((c = CHR ''<'' \<and> CHR ''>'' \<in> set cs) \<or> has_tag cs)"

text \<open>A text holds the escape sequence of the pre-pass when a backslash is followed by
  the letter n.\<close>

fun has_escape :: "string \<Rightarrow> bool" where
  "has_escape [] = False"
| "has_escape (c # cs) = ((c = CHR 0x5C \<and> startsWith cs ''n'') \<or> has_escape cs)"

text \<open>An image element whose block is an image block: it has a non-empty \<^verbatim>\<open>src\<close> and the
  probe of that URL succeeds.\<close>

definition verified_image :: "(string \<Rightarrow> bool) \<Rightarrow> element \<Rightarrow> bool" where
  "verified_image probe e =
     (tag e = ''img'' \<and>
      (case attr_get e ''src'' of None \<Rightarrow> False | Some s \<Rightarrow> s \<noteq> [] \<and> probe s))"

text \<open>
  The Language Normalizer as the specification words it: lower-case and trim, the alias
  table, the list of supported languages, and the plain-text identifier for the rest.
\<close>

definition normalize_spec :: "string \<Rightarrow> js_value" where
  "normalize_spec language =
     (let k = trim (toLowerCase language) in
      case map_of languageMap_own k of
        Some v \<Rightarrow> JsString v
      | None \<Rightarrow> if k \<in> set supportedLanguages then JsString k else JsString ''plain text'')"

text \<open>
  The batching as the specification words it: the sequence cut into contiguous chunks of
  at most \<open>n\<close>, and a delay after every submission except the last.
\<close>

function chunks :: "nat \<Rightarrow> 'a list \<Rightarrow> 'a list list" where
  "chunks n xs = (if n = 0 \<or> xs = [] then [] else take n xs # chunks n (drop n xs))"
  by pat_completeness auto
termination
  by (relation "measure (\<lambda>(n, xs). length xs)") auto

declare chunks.simps [simp del]

fun with_delays :: "event list \<Rightarrow> event list" where
  "with_delays [] = []"
| "with_delays [e] = [e]"
| "with_delays (e # e' # es) = e # Delay 200 # with_delays (e' # es)"

text \<open>
  A run used as an example: the converter gives three image paragraphs, the way the
  Markdown converter renders three images; the probe of the second URL fails; the remote
  API accepts every call.
\<close>

definition demo_html :: string where
  "demo_html =
     ''<p><img src='' @ [CHR 0x22] @ ''http://x/1.png'' @ [CHR 0x22] @ '' alt='' @ [CHR 0x22]
       @ ''one'' @ [CHR 0x22] @ '' /></p>'' @ [CHR 0x0A] @
     ''<p><img src='' @ [CHR 0x22] @ ''http://x/2.png'' @ [CHR 0x22] @ '' alt='' @ [CHR 0x22]
       @ ''two'' @ [CHR 0x22] @ '' /></p>'' @ [CHR 0x0A] @
     ''<p><img src='' @ [CHR 0x22] @ ''http://x/3.png'' @ [CHR 0x22] @ '' alt='' @ [CHR 0x22]
       @ ''three'' @ [CHR 0x22] @ '' /></p>''"

definition demo_env :: env where
  "demo_env =
     \<lparr>markdownToHtml = (\<lambda>md. demo_html),
      verifyImageUrl = (\<lambda>url. url \<noteq> ''http://x/2.png''),
      pages_create = (\<lambda>parent t. Inr ''page-1''),
      children_append = (\<lambda>k page batch. None),
      toISOString = ''2024-01-01T12:00:00.000Z'',
      toLocaleString = ''1/1/2024, 12:00:00 PM''\<rparr>"

section \<open>Verified properties\<close>

subsection \<open>Parts of a text\<close>

lemma sublist_of_suffix: "sublist x r \<Longrightarrow> suffix r s \<Longrightarrow> sublist x s"
proof -
  assume "sublist x r" and "suffix r s"
  then obtain ps ss zs where "r = ps @ x @ ss" and "s = zs @ r"
    by (auto simp: sublist_def suffix_def)
  then have "s = (zs @ ps) @ x @ ss" by simp
  then show ?thesis unfolding sublist_def by blast
qed

lemma sublist_of_sublist: "sublist x r \<Longrightarrow> sublist r s \<Longrightarrow> sublist x s"
proof -
  assume "sublist x r" and "sublist r s"
  then obtain ps ss ps' ss' where "r = ps @ x @ ss" and "s = ps' @ r @ ss'"
    by (auto simp: sublist_def)
  then have "s = (ps' @ ps) @ x @ (ss @ ss')" by simp
  then show ?thesis unfolding sublist_def by blast
qed

lemma suffix_of_suffix: "suffix a b \<Longrightarrow> suffix b c \<Longrightarrow> suffix a c"
  by (auto simp: suffix_def)

lemma trim_sublist: "sublist (trim s) s"
proof -
  let ?t = "dropWhile is_space s"
  have "rev ?t = takeWhile is_space (rev ?t) @ dropWhile is_space (rev ?t)" by simp
  then have "?t = trim s @ rev (takeWhile is_space (rev ?t))"
    unfolding trim_def by (metis rev_append rev_rev_ident)
  then have "prefix (trim s) ?t" by (metis prefixI)
  then have "sublist (trim s) ?t" by simp
  then show ?thesis using suffix_dropWhile by (rule sublist_of_suffix)
qed

text \<open>A trimmed text neither starts nor ends with white space.\<close>

lemma trim_ends: "trim s = [] \<or> (\<not> is_space (hd (trim s)) \<and> \<not> is_space (last (trim s)))"
proof (cases "trim s = []")
  case True
  then show ?thesis by simp
next
  case False
  let ?t = "dropWhile is_space s"
  let ?u = "dropWhile is_space (rev ?t)"
  have tr: "trim s = rev ?u" by (simp add: trim_def)
  with False have u: "?u \<noteq> []" by simp
  have t: "?t \<noteq> []"
  proof
    assume "?t = []"
    then have "?u = []" by (simp only: rev.simps dropWhile.simps)
    with u show False by simp
  qed
  have "\<not> is_space (hd ?u)" using u by (rule hd_dropWhile)
  then have l: "\<not> is_space (last (trim s))" using u by (simp add: tr last_rev)
  have "\<not> is_space (hd ?t)" using t by (rule hd_dropWhile)
  moreover have "last ?u = last (rev ?t)"
  proof -
    have "rev ?t = takeWhile is_space (rev ?t) @ ?u" by simp
    then show ?thesis using u by (metis last_appendR)
  qed
  ultimately have "\<not> is_space (hd (trim s))" using u t by (simp add: tr hd_rev last_rev)
  with l show ?thesis by simp
qed

lemma split_newline_nonempty: "split_newline s \<noteq> []"
  by (induction s) (auto split: list.splits)

lemma split_newline_sublist: "l \<in> set (split_newline s) \<Longrightarrow> sublist l s"
proof (induction s arbitrary: l)
  case Nil
  then show ?case by simp
next
  case (Cons c cs)
  show ?case
  proof (cases "c = CHR 0x0A")
    case True
    with Cons.prems have "l = [] \<or> l \<in> set (split_newline cs)" by simp
    then show ?thesis using Cons.IH by (auto simp: sublist_Cons_right)
  next
    case False
    obtain l0 ls where sp: "split_newline cs = l0 # ls"
      using split_newline_nonempty [of cs] by (cases "split_newline cs") auto
    with False Cons.prems have "l = c # l0 \<or> l \<in> set ls" by simp
    then show ?thesis
    proof
      assume "l \<in> set ls"
      then have "sublist l cs" using Cons.IH sp by simp
      then show ?thesis by (simp add: sublist_Cons_right)
    next
      assume l: "l = c # l0"
      have "prefix l0 cs" using sp
      proof (induction cs arbitrary: l0 ls)
        case Nil
        then show ?case by simp
      next
        case (Cons d ds)
        then show ?case
          using split_newline_nonempty [of ds]
          by (cases "split_newline ds") (auto split: if_splits)
      qed
      then have "prefix l (c # cs)" using l by simp
      then show ?thesis by simp
    qed
  qed
qed

lemma indexOf_char_None: "indexOf s [c] = None \<longleftrightarrow> c \<notin> set s"
  by (induction s) auto

lemma find_first_suffix: "find_first m s = Some r \<Longrightarrow> \<exists>t. suffix t s \<and> m t = Some r"
proof (induction s)
  case Nil
  then show ?case by auto
next
  case (Cons c cs)
  show ?case
  proof (cases "m (c # cs)")
    case (Some r')
    with Cons.prems show ?thesis by auto
  next
    case None
    with Cons obtain t where "suffix t cs" "m t = Some r" by auto
    then show ?thesis by (auto intro: suffix_ConsI)
  qed
qed

lemma lazy_dot_prefix: "lazy_dot cl s = Some g \<Longrightarrow> prefix g s"
  by (induction s arbitrary: g) (auto split: if_splits)

lemma match_between_sublist: "match_between opn cls l = Some g \<Longrightarrow> sublist g l"
proof -
  assume "match_between opn cls l = Some g"
  then obtain t where t: "suffix t l"
    and m: "lazy_dot (\<lambda>u. startsWith u cls) (drop (length opn) t) = Some g"
    unfolding match_between_def by (auto dest!: find_first_suffix split: if_splits)
  from lazy_dot_prefix [OF m] have "sublist g (drop (length opn) t)" by simp
  then have "sublist g t" using suffix_drop by (rule sublist_of_suffix)
  then show ?thesis using t by (rule sublist_of_suffix)
qed

subsection \<open>Inline Rich-Text Tokenizer\<close>

text \<open>What the tokenizer keeps of the accumulator and what it adds.\<close>

lemma styled_step_inv:
  assumes "styled_step rest ct skip a acc = (rest', acc')" and "r \<in> set acc'"
  shows "r \<in> set acc \<or> (\<exists>x. sublist x rest \<and> r = styled_run (stripHtmlTags x) a)"
  using assms by (cases ct) (auto simp: styled_step_def)

lemma styled_step_suffix:
  "styled_step rest ct skip a acc = (rest', acc') \<Longrightarrow> suffix rest' rest"
  by (cases ct) (auto simp: styled_step_def suffix_drop)

lemma tag_step_suffix: "tag_step tg rest acc = (rest', acc') \<Longrightarrow> suffix rest' rest"
  by (auto simp: tag_step_def split: if_splits dest: styled_step_suffix)

lemma tag_step_inv:
  assumes "tag_step tg rest acc = (rest', acc')" and "r \<in> set acc'"
  shows "r \<in> set acc \<or> (\<exists>x a. sublist x rest \<and> r = styled_run (stripHtmlTags x) a)"
  using assms by (auto simp: tag_step_def split: if_splits dest: styled_step_inv)

lemma flush_inv: "r \<in> set (flush cur acc) \<Longrightarrow> r \<in> set acc \<or> r = plain_run cur"
  by (auto simp: flush_def split: if_splits)

lemma richText_loop_inv:
  "r \<in> set (richText_loop s cur acc) \<Longrightarrow>
     r \<in> set acc \<or> (\<exists>t. r = plain_run t) \<or>
     (\<exists>x a. sublist x s \<and> r = styled_run (stripHtmlTags x) a)"
proof (induction s cur acc rule: richText_loop.induct)
  case (1 currentText richText)
  then show ?case by (auto dest: flush_inv)
next
  case (2 c cs currentText richText)
  show ?case
  proof (cases "c = CHR ''<''")
    case False
    with 2 have "r \<in> set richText \<or> (\<exists>t. r = plain_run t) \<or>
       (\<exists>x a. sublist x cs \<and> r = styled_run (stripHtmlTags x) a)"
      by simp
    then show ?thesis
      by (auto simp: sublist_Cons_right)
  next
    case True
    show ?thesis
    proof (cases "indexOf (c # cs) ''>''")
      case None
      with True have "richText_loop (c # cs) currentText richText = flush currentText richText"
        by (simp only: richText_loop.simps simp_thms if_True option.case)
      with "2.prems" show ?thesis by (auto dest: flush_inv)
    next
      case (Some tagEnd)
      obtain rest acc' where ts: "tag_step (take (Suc tagEnd) (c # cs)) (drop (Suc tagEnd) (c # cs))
          (flush currentText richText) = (rest, acc')"
        by (cases "tag_step (take (Suc tagEnd) (c # cs)) (drop (Suc tagEnd) (c # cs))
          (flush currentText richText)")
      have "richText_loop (c # cs) currentText richText = richText_loop rest [] acc'"
        using True Some ts
        by (simp only: richText_loop.simps simp_thms if_True option.case prod.case)
      with "2.prems" have mem: "r \<in> set (richText_loop rest [] acc')"
        by simp
      have IH: "r \<in> set acc' \<or> (\<exists>t. r = plain_run t) \<or>
          (\<exists>x a. sublist x rest \<and> r = styled_run (stripHtmlTags x) a)"
        using "2.IH"(1) [OF True Some ts [symmetric] mem] .
      have suf: "suffix rest (c # cs)"
        using tag_step_suffix [OF ts] suffix_drop [of "Suc tagEnd" "c # cs"]
        by (rule suffix_of_suffix)
      have sub: "sublist x (c # cs)" if "sublist x rest" for x
        using that suf by (rule sublist_of_suffix)
      have sub2: "sublist x (c # cs)" if "sublist x (drop (Suc tagEnd) (c # cs))" for x
        using that suffix_drop by (rule sublist_of_suffix)
      from IH show ?thesis
      proof (elim disjE)
        assume "r \<in> set acc'"
        from tag_step_inv [OF ts this] show ?thesis
          using sub2 by (auto dest: flush_inv)
      next
        assume "\<exists>t. r = plain_run t"
        then show ?thesis by simp
      next
        assume "\<exists>x a. sublist x rest \<and> r = styled_run (stripHtmlTags x) a"
        then show ?thesis using sub by blast
      qed
    qed
  qed
qed

lemma styled_runs_stripped:
  assumes "r \<in> set (htmlToRichText html)" and "annotations r \<noteq> []"
  shows "\<exists>x. sublist x html \<and> text_content r = stripHtmlTags x"
proof -
  from assms(1) have "r \<in> set (richText_loop html [] []) \<or> r = plain_run html"
    by (auto simp: htmlToRichText_def Let_def split: if_splits)
  with assms(2) have "r \<in> set (richText_loop html [] [])"
    by (auto simp: plain_run_def)
  from richText_loop_inv [OF this] assms(2) show ?thesis
    by (auto simp: plain_run_def styled_run_def)
qed


text \<open>The removal of tags leaves no tag, and the result of \<^verbatim>\<open>stripHtmlTags\<close> is trimmed.\<close>

lemma set_remove_tags: "set (remove_tags s) \<subseteq> set s"
proof (induction s rule: remove_tags.induct)
  case 1
  show ?case by simp
next
  case (2 c cs)
  show ?case
  proof (cases "c = CHR ''<''")
    case False
    with 2 show ?thesis by auto
  next
    case True
    show ?thesis
    proof (cases "indexOf cs ''>''")
      case None
      with True 2 show ?thesis by auto
    next
      case (Some k)
      with True 2 have "set (remove_tags (c # cs)) \<subseteq> set (drop (Suc k) cs)" by simp
      also have "\<dots> \<subseteq> set cs" by (rule set_drop_subset)
      finally show ?thesis by auto
    qed
  qed
qed

lemma no_tag_left: "\<not> has_tag (remove_tags s)"
proof (induction s rule: remove_tags.induct)
  case 1
  show ?case by simp
next
  case (2 c cs)
  show ?case
  proof (cases "c = CHR ''<''")
    case False
    with 2 show ?thesis by simp
  next
    case True
    show ?thesis
    proof (cases "indexOf cs ''>''")
      case None
      then have "CHR ''>'' \<notin> set cs" by (simp add: indexOf_char_None)
      then have "CHR ''>'' \<notin> set (remove_tags cs)" using set_remove_tags by blast
      with True None 2 show ?thesis by simp
    next
      case (Some k)
      with True 2 show ?thesis by simp
    qed
  qed
qed

lemma stripHtmlTags_ends: "stripHtmlTags x = [] \<or> (\<not> is_space (hd (stripHtmlTags x)) \<and> \<not> is_space (last (stripHtmlTags x)))"
  unfolding stripHtmlTags_def Let_def by (rule trim_ends)


text \<open>The cells of a table row are parts of the row, stripped.\<close>

lemma row_cells_stripped: "c \<in> set (row_cells s) \<Longrightarrow> \<exists>x. sublist x s \<and> c = stripHtmlTags x"
proof (induction s rule: row_cells.induct)
  case 1
  then show ?case by simp
next
  case (2 ch cs)
  show ?case
  proof (cases "cell_at (ch # cs)")
    case None
    with 2 have "\<exists>x. sublist x cs \<and> c = stripHtmlTags x" by simp
    then show ?thesis by (auto simp: sublist_Cons_right)
  next
    case (Some g)
    then have "prefix g (drop 4 (ch # cs))"
      by (auto simp: cell_at_def split: if_splits dest: lazy_dot_prefix)
    then have "sublist g (drop 4 (ch # cs))" by simp
    then have g: "sublist g (ch # cs)" using suffix_drop by (rule sublist_of_suffix)
    from Some "2.prems" have "c = stripHtmlTags g \<or>
        c \<in> set (row_cells (drop (4 + length g + 5) (ch # cs)))" by simp
    then show ?thesis
    proof
      assume "c = stripHtmlTags g"
      with g show ?thesis by blast
    next
      assume "c \<in> set (row_cells (drop (4 + length g + 5) (ch # cs)))"
      with "2.IH"(2) [OF Some] obtain x where
        "sublist x (drop (4 + length g + 5) (ch # cs))" "c = stripHtmlTags x" by blast
      then show ?thesis using suffix_drop sublist_of_suffix by blast
    qed
  qed
qed

lemma scan_line_cells:
  assumes "e \<in> set (scan_line l)" and "attributes e = Some (CellsAttr cells)" and "c \<in> set cells"
  shows "\<exists>x. sublist x l \<and> c = stripHtmlTags x"
proof -
  from assms(1,2) obtain row where row: "match_between ''<tr>'' ''</tr>'' (trim l) = Some row"
    and cells: "cells = row_cells row"
    by (auto simp: scan_line_def Let_def split: if_splits option.splits prod.splits) metis+
  from assms(3) cells obtain x where x: "sublist x row" "c = stripHtmlTags x"
    using row_cells_stripped by blast
  have "sublist row l"
    using match_between_sublist [OF row] trim_sublist by (rule sublist_of_sublist)
  with x(1) have "sublist x l" by (rule sublist_of_sublist)
  with x(2) show ?thesis by blast
qed

lemma parse_cells:
  assumes "e \<in> set (parseHtmlElements html)" and "attributes e = Some (CellsAttr cells)"
    and "c \<in> set cells"
  shows "\<exists>x. sublist x (preprocessCodeBlocks html) \<and> c = stripHtmlTags x"
proof -
  from assms(1) obtain l where l: "l \<in> set (split_newline (preprocessCodeBlocks html))"
    and e: "e \<in> set (scan_line l)"
    by (auto simp: parseHtmlElements_def Let_def)
  from scan_line_cells [OF e assms(2,3)] obtain x where "sublist x l" "c = stripHtmlTags x"
    by blast
  then show ?thesis using split_newline_sublist [OF l] sublist_of_sublist by blast
qed


text \<open>A text without \<^verbatim>\<open><\<close> is a single unstyled run, verbatim.\<close>

lemma plain_verbatim: "CHR ''<'' \<notin> set s \<Longrightarrow> richText_loop s cur acc = flush (cur @ s) acc"
  by (induction s arbitrary: cur) auto

lemma htmlToRichText_plain: "CHR ''<'' \<notin> set s \<Longrightarrow> htmlToRichText s = [plain_run s]"
  by (auto simp: htmlToRichText_def plain_verbatim flush_def)

text \<open>
  Claim C7.  The fragment \<^verbatim>\<open>plain <strong>bold</strong> text\<close> is tokenized into exactly
  three runs, in this order: the unstyled run \<^verbatim>\<open>"plain "\<close>, the bold run \<^verbatim>\<open>"bold"\<close> and
  the unstyled run \<^verbatim>\<open>" text"\<close>.
\<close>

theorem htmlToRichText_plain_bold_text:
  "htmlToRichText ''plain <strong>bold</strong> text'' =
     [\<lparr>text_content = ''plain '', annotations = []\<rparr>,
      \<lparr>text_content = ''bold'', annotations = [Bold]\<rparr>,
      \<lparr>text_content = '' text'', annotations = []\<rparr>]"
  by code_simp

text \<open>
  Claim C9.  For every input the tokenizer returns (the loop is a total function, its
  termination is proved with its definition) and the list of runs is not empty; the empty
  text gives a single run with the empty text.  Hence every block the Block Builder makes
  that has a rich-text list has a non-empty one.
\<close>

theorem htmlToRichText_never_empty:
  "htmlToRichText html \<noteq> []
   \<and> htmlToRichText [] = [\<lparr>text_content = [], annotations = []\<rparr>]
   \<and> (elementToNotionBlock probe e = Some b \<longrightarrow> block_rich_text b = Some rt \<longrightarrow> rt \<noteq> [])"
proof -
  have ne: "htmlToRichText h \<noteq> []" for h
    by (simp add: htmlToRichText_def Let_def)
  have "htmlToRichText [] = [\<lparr>text_content = [], annotations = []\<rparr>]"
    by (simp add: htmlToRichText_def flush_def plain_run_def)
  moreover have "rt \<noteq> []"
    if "elementToNotionBlock probe e = Some b" and "block_rich_text b = Some rt"
    using that
    by (auto simp: elementToNotionBlock_def block_rich_text_def ne
        split: if_splits option.splits attributes.splits)
  ultimately show ?thesis using ne by blast
qed

text \<open>The statement at a paragraph whose content is an unrecognized tag.\<close>

theorem htmlToRichText_never_empty_witness:
  "elementToNotionBlock (\<lambda>url. True) \<lparr>tag = ''p'', content = ''<b>'', attributes = None\<rparr>
     = Some (Paragraph [\<lparr>text_content = ''<b>'', annotations = []\<rparr>])
   \<and> block_rich_text (Paragraph [\<lparr>text_content = ''<b>'', annotations = []\<rparr>])
     = Some [\<lparr>text_content = ''<b>'', annotations = []\<rparr>]
   \<and> [\<lparr>text_content = ''<b>'', annotations = []\<rparr>] \<noteq> []
   \<and> htmlToRichText ''<b>'' \<noteq> []"
proof -
  have a: "elementToNotionBlock (\<lambda>url. True) \<lparr>tag = ''p'', content = ''<b>'', attributes = None\<rparr>
     = Some (Paragraph [\<lparr>text_content = ''<b>'', annotations = []\<rparr>])"
    by code_simp
  have b: "block_rich_text (Paragraph [\<lparr>text_content = ''<b>'', annotations = []\<rparr>])
     = Some [\<lparr>text_content = ''<b>'', annotations = []\<rparr>]"
    by (simp add: block_rich_text_def)
  show ?thesis
    using a b htmlToRichText_never_empty [of "''<b>''" "\<lambda>url. True"
        "\<lparr>tag = ''p'', content = ''<b>'', attributes = None\<rparr>"
        "Paragraph [\<lparr>text_content = ''<b>'', annotations = []\<rparr>]"
        "[\<lparr>text_content = ''<b>'', annotations = []\<rparr>]"]
    by blast
qed

text \<open>
  Claim C10.  The text of every styled run of the tokenizer is \<^verbatim>\<open>stripHtmlTags\<close> of a part
  of the fragment, and every cell of a scanned table row is \<^verbatim>\<open>stripHtmlTags\<close> of a part of
  the (pre-processed) HTML: the tags are removed, the five entities decoded, and the text
  trimmed, so \<^verbatim>\<open><strong> bold </strong>\<close> gives the bold run \<^verbatim>\<open>bold\<close>.  Unstyled text is
  kept verbatim, white space included.
\<close>

theorem styled_text_is_stripped:
  "(r \<in> set (htmlToRichText html) \<longrightarrow> annotations r \<noteq> [] \<longrightarrow>
      (\<exists>x. sublist x html \<and> text_content r = stripHtmlTags x))
   \<and> (e \<in> set (parseHtmlElements html) \<longrightarrow> attributes e = Some (CellsAttr cells) \<longrightarrow>
        c \<in> set cells \<longrightarrow>
      (\<exists>x. sublist x (preprocessCodeBlocks html) \<and> c = stripHtmlTags x))
   \<and> \<not> has_tag (remove_tags t)
   \<and> (stripHtmlTags t = [] \<or>
        \<not> is_space (hd (stripHtmlTags t)) \<and> \<not> is_space (last (stripHtmlTags t)))
   \<and> stripHtmlTags ''<i>1 &lt; 2 &amp; 3 &gt; 2</i> &quot;q&quot; &#39;s&#39; ''
        = ''1 < 2 & 3 > 2 '' @ [CHR 0x22] @ ''q'' @ [CHR 0x22] @ '' '' @ [CHR 0x27] @ ''s'' @ [CHR 0x27]
   \<and> htmlToRichText ''<strong> bold </strong>'' = [\<lparr>text_content = ''bold'', annotations = [Bold]\<rparr>]
   \<and> (CHR ''<'' \<notin> set t \<longrightarrow> htmlToRichText t = [\<lparr>text_content = t, annotations = []\<rparr>])"
proof -
  have "stripHtmlTags ''<i>1 &lt; 2 &amp; 3 &gt; 2</i> &quot;q&quot; &#39;s&#39; ''
        = ''1 < 2 & 3 > 2 '' @ [CHR 0x22] @ ''q'' @ [CHR 0x22] @ '' '' @ [CHR 0x27] @ ''s'' @ [CHR 0x27]"
    by code_simp
  moreover have "htmlToRichText ''<strong> bold </strong>''
        = [\<lparr>text_content = ''bold'', annotations = [Bold]\<rparr>]"
    by code_simp
  moreover have "CHR ''<'' \<notin> set t \<longrightarrow> htmlToRichText t = [\<lparr>text_content = t, annotations = []\<rparr>]"
    using htmlToRichText_plain [of t] by (simp add: plain_run_def)
  ultimately show ?thesis
    using styled_runs_stripped [of r html] parse_cells [of e html cells c]
      no_tag_left [of t] stripHtmlTags_ends [of t]
    by blast
qed

text \<open>The statement at a bold run, at a table row and at a text with blanks.\<close>

theorem styled_text_is_stripped_witness:
  "\<lparr>text_content = ''bold'', annotations = [Bold]\<rparr> \<in> set (htmlToRichText ''a <strong> bold </strong>'')
   \<and> annotations \<lparr>text_content = ''bold'', annotations = [Bold]\<rparr> \<noteq> []
   \<and> (\<exists>x. sublist x ''a <strong> bold </strong>'' \<and> ''bold'' = stripHtmlTags x)
   \<and> \<lparr>tag = ''table-row'', content = [], attributes = Some (CellsAttr [''a'', ''b''])\<rparr>
        \<in> set (parseHtmlElements ''<tr><th> a </th><td><b>b</b></td></tr>'')
   \<and> ''b'' \<in> set [''a'', ''b'']
   \<and> (\<exists>x. sublist x (preprocessCodeBlocks ''<tr><th> a </th><td><b>b</b></td></tr>'')
          \<and> ''b'' = stripHtmlTags x)
   \<and> CHR ''<'' \<notin> set '' a  b ''
   \<and> htmlToRichText '' a  b '' = [\<lparr>text_content = '' a  b '', annotations = []\<rparr>]"
proof -
  have a: "\<lparr>text_content = ''bold'', annotations = [Bold]\<rparr>
             \<in> set (htmlToRichText ''a <strong> bold </strong>'')"
    by code_simp
  have b: "annotations \<lparr>text_content = ''bold'', annotations = [Bold]\<rparr> \<noteq> []"
    by simp
  have c: "\<lparr>tag = ''table-row'', content = [], attributes = Some (CellsAttr [''a'', ''b''])\<rparr>
        \<in> set (parseHtmlElements ''<tr><th> a </th><td><b>b</b></td></tr>'')"
    by code_simp
  have d: "attributes \<lparr>tag = ''table-row'', content = [], attributes = Some (CellsAttr [''a'', ''b''])\<rparr>
             = Some (CellsAttr [''a'', ''b''])"
    by simp
  have e: "''b'' \<in> set [''a'', ''b'']" by simp
  have f: "CHR ''<'' \<notin> set '' a  b ''" by simp
  show ?thesis
    using a b c d e f
      styled_text_is_stripped [of "\<lparr>text_content = ''bold'', annotations = [Bold]\<rparr>"
        "''a <strong> bold </strong>''" _ _ _ "'' a  b ''"]
      styled_text_is_stripped [of _ "''<tr><th> a </th><td><b>b</b></td></tr>''"
        "\<lparr>tag = ''table-row'', content = [], attributes = Some (CellsAttr [''a'', ''b''])\<rparr>"
        "[''a'', ''b'']" "''b''"]
    by (simp del: set_simps)
qed

subsection \<open>Language Normalizer\<close>

text \<open>The four examples of the specification, and the rule it states, which holds for
  every name that is not a member of \<^verbatim>\<open>Object.prototype\<close> once cleaned.\<close>

lemma normalizeLanguage_examples:
  "normalizeLanguage ''JS'' = JsString ''javascript''
   \<and> normalizeLanguage '''' = JsString ''plain text''
   \<and> normalizeLanguage ''brainfuck'' = JsString ''plain text''
   \<and> normalizeLanguage ''Rust'' = JsString ''rust''"
  by code_simp

lemma normalizeLanguage_rule:
  assumes "trim (toLowerCase language) \<notin> set object_prototype_members"
  shows "normalizeLanguage language = normalize_spec language"
proof -
  have e: "normalize_spec [] = JsString ''plain text''" by code_simp
  have p: "normalize_spec ''plain text'' = JsString ''plain text''" by code_simp
  show ?thesis
  proof (cases "language = [] \<or> language = ''plain text''")
    case True
    then show ?thesis using e p by (auto simp: normalizeLanguage_def)
  next
    case False
    then show ?thesis using assms
      by (simp add: normalizeLanguage_def normalize_spec_def languageMap_def Let_def
          split: option.splits)
  qed
qed

text \<open>
  Claim C6.  The claim has the normalizer return the plain-text identifier for every name
  that is neither an alias nor a supported language.  The code does not for the name
  \<^verbatim>\<open>constructor\<close>: \<^verbatim>\<open>languageMap['constructor']\<close> is the inherited \<^verbatim>\<open>Object\<close> function, which
  is truthy, so it is returned in place of a string, and a code block fenced with that
  name gets it as its language.
\<close>

theorem normalizeLanguage_returns_prototype_member:
  "normalizeLanguage ''constructor'' = JsInherited ''constructor''
   \<and> normalizeLanguage ''constructor'' \<noteq> JsString ''plain text''
   \<and> parseHtmlElements (''<pre><code class='' @ [CHR 0x22] @ ''constructor language-constructor''
        @ [CHR 0x22] @ ''>x</code></pre>'')
      = [\<lparr>tag = ''pre'', content = ''x'',
          attributes = Some (LanguageAttr (JsInherited ''constructor''))\<rparr>]
   \<and> elementToNotionBlock probe
        \<lparr>tag = ''pre'', content = ''x'',
          attributes = Some (LanguageAttr (JsInherited ''constructor''))\<rparr>
      = Some (CodeBlock [\<lparr>text_content = ''x'', annotations = []\<rparr>] (JsInherited ''constructor''))"
  by code_simp

subsection \<open>Title resolution\<close>

lemma firstLine_takeWhile: "firstLine md = takeWhile (\<lambda>c. c \<noteq> CHR 0x0A) md"
proof (induction md)
  case Nil
  show ?case by (simp add: firstLine_def)
next
  case (Cons c cs)
  then show ?case
    using split_newline_nonempty [of cs]
    by (cases "split_newline cs") (auto simp: firstLine_def)
qed

lemma match_atx_not_hash: "CHR ''#'' \<noteq> c \<Longrightarrow> match_atx (CHR ''#'' # m) (c # cs) = None"
  by (simp add: match_atx_def)

lemma find_atx_skip:
  "CHR ''#'' \<notin> set pre \<Longrightarrow>
     find_atx (CHR ''#'' # m) b (pre @ s) =
     find_atx (CHR ''#'' # m) (if pre = [] then b else is_line_terminator (last pre)) s"
proof (induction pre arbitrary: b)
  case Nil
  show ?case by simp
next
  case (Cons c pre)
  then show ?case by (auto simp: match_atx_not_hash)
qed

lemma find_atx_no_hash: "CHR ''#'' \<notin> set md \<Longrightarrow> find_atx (CHR ''#'' # m) b md = None"
  using find_atx_skip [of md m b "[]"] by simp

lemma strip_hashes_no_hash: "CHR ''#'' \<notin> set l \<Longrightarrow> strip_hashes l = l"
  by (cases l) (auto simp: strip_hashes_def)

text \<open>
  A line that starts with one \<^verbatim>\<open>#\<close>, white space and a text, with no \<^verbatim>\<open>#\<close> before that
  line, gives its trimmed text as the title.
\<close>

lemma match_atx_line:
  assumes "t \<noteq> []" "\<not> is_space (hd t)" "\<forall>c \<in> set t. \<not> is_line_terminator c"
    and "post = [] \<or> is_line_terminator (hd post)"
    and "ws \<noteq> []" "\<forall>c \<in> set ws. is_space c"
  shows "match_atx marker (marker @ ws @ t @ post) = Some t"
proof -
  have sw: "startsWith (marker @ r) marker" for r :: string
    by (induction marker) auto
  have tw: "takeWhile is_space (ws @ t @ post) = ws"
    using assms(1,2,6) by (cases t) (auto simp: takeWhile_append2)
  have dw: "dropWhile is_space (ws @ t @ post) = t @ post"
    using assms(1,2,6) by (cases t) (auto simp: dropWhile_append2)
  have line: "takeWhile (\<lambda>c. \<not> is_line_terminator c) (t @ post) = t"
    using assms(3,4) by (cases post) (auto simp: takeWhile_append2)
  show ?thesis
    using assms(1,5) by (simp add: match_atx_def sw tw dw line Let_def)
qed

lemma title_of_h1_line:
  assumes "CHR ''#'' \<notin> set pre" "pre = [] \<or> is_line_terminator (last pre)"
    and "t \<noteq> []" "\<not> is_space (hd t)" "\<forall>c \<in> set t. \<not> is_line_terminator c"
    and "post = [] \<or> is_line_terminator (hd post)"
    and "ws \<noteq> []" "\<forall>c \<in> set ws. is_space c"
  shows "extractTitleFromContent (pre @ ''#'' @ ws @ t @ post) = trim t"
proof -
  have "find_atx ''#'' True (pre @ ''#'' @ ws @ t @ post) = find_atx ''#'' True (''#'' @ ws @ t @ post)"
    using find_atx_skip [OF assms(1), of "[]" True] assms(2) by auto
  also have "\<dots> = Some t"
    using match_atx_line [OF assms(3-8), of "''#''"] by simp
  finally show ?thesis by (simp add: extractTitleFromContent_def)
qed

text \<open>
  Claim C3, as stated, at a text whose first line is empty and whose second line is
  \<^verbatim>\<open>hello\<close>: there is no heading, the first non-empty line is \<^verbatim>\<open>hello\<close>, and the title is
  the placeholder.
\<close>

theorem title_blank_first_line_counterexample:
  "find_atx ''#'' True ''\<newline>hello'' = None
   \<and> find_atx ''##'' True ''\<newline>hello'' = None
   \<and> extractTitleFromContent ''\<newline>hello'' = untitled
   \<and> extractTitleFromContent ''\<newline>hello'' \<noteq> ''hello''"
  by code_simp

text \<open>
  Claim C3, amended.  The title is the trimmed group of the first match of the H1
  pattern; else that of the first match of the H2 pattern; else, when the first line of
  the text (what precedes the first line feed) is not empty, that first line without its
  leading \<^verbatim>\<open>#\<close> markers and the white space after them, trimmed; else the placeholder.  In
  particular a text without any \<^verbatim>\<open>#\<close> has its trimmed first line as title, and the
  placeholder when that line is empty.
\<close>

theorem title_resolution_order:
  "(find_atx ''#'' True md = Some g \<longrightarrow> extractTitleFromContent md = trim g)
   \<and> (find_atx ''#'' True md = None \<longrightarrow> find_atx ''##'' True md = Some g \<longrightarrow>
        extractTitleFromContent md = trim g)
   \<and> (find_atx ''#'' True md = None \<longrightarrow> find_atx ''##'' True md = None \<longrightarrow>
        extractTitleFromContent md =
          (if takeWhile (\<lambda>c. c \<noteq> CHR 0x0A) md = [] then untitled
           else trim (strip_hashes (takeWhile (\<lambda>c. c \<noteq> CHR 0x0A) md))))
   \<and> (CHR ''#'' \<notin> set md \<longrightarrow>
        extractTitleFromContent md =
          (if takeWhile (\<lambda>c. c \<noteq> CHR 0x0A) md = [] then untitled
           else trim (takeWhile (\<lambda>c. c \<noteq> CHR 0x0A) md)))"
proof -
  have "extractTitleFromContent md =
          (if takeWhile (\<lambda>c. c \<noteq> CHR 0x0A) md = [] then untitled
           else trim (takeWhile (\<lambda>c. c \<noteq> CHR 0x0A) md))"
    if no: "CHR ''#'' \<notin> set md"
  proof -
    have "CHR ''#'' \<notin> set (takeWhile (\<lambda>c. c \<noteq> CHR 0x0A) md)"
      using no by (meson set_takeWhileD)
    then have "strip_hashes (takeWhile (\<lambda>c. c \<noteq> CHR 0x0A) md) = takeWhile (\<lambda>c. c \<noteq> CHR 0x0A) md"
      by (rule strip_hashes_no_hash)
    then show ?thesis
      using find_atx_no_hash [OF no, of "[]" True] find_atx_no_hash [OF no, of "''#''" True]
      by (simp add: extractTitleFromContent_def firstLine_takeWhile)
  qed
  then show ?thesis
    by (simp add: extractTitleFromContent_def firstLine_takeWhile)
qed

text \<open>The four cases at four texts.\<close>

theorem title_resolution_order_witness:
  "find_atx ''#'' True ''intro\<newline>## Sub\<newline># Top'' = Some ''Top''
   \<and> extractTitleFromContent ''intro\<newline>## Sub\<newline># Top'' = trim ''Top''
   \<and> find_atx ''#'' True ''intro\<newline>## Sub  '' = None
   \<and> find_atx ''##'' True ''intro\<newline>## Sub  '' = Some ''Sub  ''
   \<and> extractTitleFromContent ''intro\<newline>## Sub  '' = trim ''Sub  ''
   \<and> find_atx ''#'' True ''#foo\<newline>bar'' = None
   \<and> find_atx ''##'' True ''#foo\<newline>bar'' = None
   \<and> extractTitleFromContent ''#foo\<newline>bar'' = ''foo''
   \<and> CHR ''#'' \<notin> set '' hello \<newline>world''
   \<and> extractTitleFromContent '' hello \<newline>world'' = ''hello''"
proof -
  have a: "find_atx ''#'' True ''intro\<newline>## Sub\<newline># Top'' = Some ''Top''" by code_simp
  have b: "find_atx ''#'' True ''intro\<newline>## Sub  '' = None" by code_simp
  have c: "find_atx ''##'' True ''intro\<newline>## Sub  '' = Some ''Sub  ''" by code_simp
  have d: "find_atx ''#'' True ''#foo\<newline>bar'' = None" by code_simp
  have e: "find_atx ''##'' True ''#foo\<newline>bar'' = None" by code_simp
  have f: "CHR ''#'' \<notin> set '' hello \<newline>world''" by simp
  have g: "(if takeWhile (\<lambda>c. c \<noteq> CHR 0x0A) ''#foo\<newline>bar'' = [] then untitled
           else trim (strip_hashes (takeWhile (\<lambda>c. c \<noteq> CHR 0x0A) ''#foo\<newline>bar''))) = ''foo''"
    by code_simp
  have h: "(if takeWhile (\<lambda>c. c \<noteq> CHR 0x0A) '' hello \<newline>world'' = [] then untitled
           else trim (takeWhile (\<lambda>c. c \<noteq> CHR 0x0A) '' hello \<newline>world'')) = ''hello''"
    by code_simp
  show ?thesis
    using a b c d e f g h
      title_resolution_order [of "''intro\<newline>## Sub\<newline># Top''" "''Top''"]
      title_resolution_order [of "''intro\<newline>## Sub  ''" "''Sub  ''"]
      title_resolution_order [of "''#foo\<newline>bar''"]
      title_resolution_order [of "'' hello \<newline>world''"]
    by (simp del: set_simps takeWhile.simps)
qed

subsection \<open>The escape of code blocks\<close>

text \<open>
  Un-escaping after escaping gives the interior back exactly when the interior holds no
  backslash followed by the letter n; otherwise the result is shorter than the interior.
\<close>

lemma escape_Nil [simp]: "escape_newlines [] = []"
  by (simp add: escape_newlines_def)

lemma escape_Cons:
  "escape_newlines (c # cs) =
     (if c = CHR 0x0A then [CHR 0x5C, CHR ''n''] else [c]) @ escape_newlines cs"
  by (simp add: escape_newlines_def)

lemma escape_starts_n:
  "startsWith (escape_newlines cs) ''n'' \<longleftrightarrow> startsWith cs ''n''"
  by (cases cs) (auto simp: escape_Cons)

lemma unescape_Nil [simp]: "unescape_newlines [] = []"
  by (simp add: unescape_newlines_def)

lemma unescape_Cons:
  "unescape_newlines (c # cs) =
     (if c = CHR 0x5C \<and> startsWith cs ''n'' then CHR 0x0A # unescape_newlines (drop 1 cs)
      else c # unescape_newlines cs)"
  by (cases cs) (auto simp: unescape_newlines_def)

lemma escape_roundtrip: "\<not> has_escape s \<Longrightarrow> unescape_newlines (escape_newlines s) = s"
proof (induction s)
  case Nil
  show ?case by simp
next
  case (Cons c cs)
  then have IH: "unescape_newlines (escape_newlines cs) = cs" by simp
  from Cons.prems have no: "\<not> (c = CHR 0x5C \<and> startsWith cs ''n'')" by simp
  show ?case
  proof (cases "c = CHR 0x0A")
    case True
    then show ?thesis using IH by (simp add: escape_Cons unescape_Cons)
  next
    case False
    then show ?thesis using IH no by (simp add: escape_Cons unescape_Cons escape_starts_n)
  qed
qed

lemma escape_shrinks:
  "length (unescape_newlines (escape_newlines s)) \<le> length s
   \<and> (has_escape s \<longrightarrow> length (unescape_newlines (escape_newlines s)) < length s)"
proof (induction s rule: length_induct)
  case (1 s)
  show ?case
  proof (cases s)
    case Nil
    then show ?thesis by simp
  next
    case (Cons c cs)
    have IH: "length (unescape_newlines (escape_newlines cs)) \<le> length cs
      \<and> (has_escape cs \<longrightarrow> length (unescape_newlines (escape_newlines cs)) < length cs)"
      using 1 Cons by simp
    show ?thesis
    proof (cases "c = CHR 0x0A")
      case True
      then show ?thesis using IH Cons by (simp add: escape_Cons unescape_Cons)
    next
      case nl: False
      show ?thesis
      proof (cases "c = CHR 0x5C \<and> startsWith cs ''n''")
        case False
        then show ?thesis using IH Cons nl
          by (auto simp: escape_Cons unescape_Cons escape_starts_n)
      next
        case True
        then obtain ds where ds: "cs = CHR ''n'' # ds" by (cases cs) auto
        have "length (unescape_newlines (escape_newlines ds)) \<le> length ds"
          using 1 Cons ds by simp
        then show ?thesis using True Cons nl ds
          by (simp add: escape_Cons unescape_Cons)
      qed
    qed
  qed
qed

lemma escape_roundtrip_iff: "unescape_newlines (escape_newlines s) = s \<longleftrightarrow> \<not> has_escape s"
  using escape_roundtrip [of s] escape_shrinks [of s] by auto

text \<open>The example of the specification: a fence with an empty line inside.\<close>

lemma code_fence_with_blank_line:
  "map (elementToNotionBlock probe)
     (parseHtmlElements (''<pre><code class='' @ [CHR 0x22] @ ''js language-js'' @ [CHR 0x22]
        @ ''>a\<newline>\<newline>b</code></pre>''))
   = [Some (CodeBlock [\<lparr>text_content = ''a\<newline>\<newline>b'', annotations = []\<rparr>] (JsString ''javascript''))]"
  by code_simp

text \<open>
  Claim C5.  The claim has the code block carry the original interior for every
  multi-line code block.  The code does not when the interior holds a backslash
  followed by the letter n, as in a string literal of most languages: the un-escape
  cannot tell it from an escaped line feed and turns it into a line feed.  Here the
  interior has two lines, the first being \<^verbatim>\<open>print("a\n")\<close>.
\<close>

theorem code_escape_corrupts_backslash_n:
  "parseHtmlElements (''<pre><code>print('' @ [CHR 0x22] @ ''a'' @ [CHR 0x5C] @ ''n'' @ [CHR 0x22]
        @ '')\<newline>done</code></pre>'')
     = [\<lparr>tag = ''pre'',
         content = ''print('' @ [CHR 0x22] @ ''a'' @ [CHR 0x5C] @ ''n'' @ [CHR 0x22] @ '')''
                   @ [CHR 0x5C] @ ''ndone'',
         attributes = Some (LanguageAttr (JsString ''plain text''))\<rparr>]
   \<and> elementToNotionBlock probe
       \<lparr>tag = ''pre'',
         content = ''print('' @ [CHR 0x22] @ ''a'' @ [CHR 0x5C] @ ''n'' @ [CHR 0x22] @ '')''
                   @ [CHR 0x5C] @ ''ndone'',
         attributes = Some (LanguageAttr (JsString ''plain text''))\<rparr>
     = Some (CodeBlock
         [\<lparr>text_content = ''print('' @ [CHR 0x22] @ ''a\<newline>'' @ [CHR 0x22] @ '')\<newline>done'',
           annotations = []\<rparr>]
         (JsString ''plain text''))
   \<and> ''print('' @ [CHR 0x22] @ ''a\<newline>'' @ [CHR 0x22] @ '')\<newline>done''
       \<noteq> ''print('' @ [CHR 0x22] @ ''a'' @ [CHR 0x5C] @ ''n'' @ [CHR 0x22] @ '')\<newline>done''"
  by code_simp

subsection \<open>Headings\<close>

lemma heading_at_level: "heading_at s = Some (d, inner) \<Longrightarrow> is_level d"
  by (auto simp: heading_at_def split: list.splits if_splits)

lemma scan_line_tags:
  "e \<in> set (scan_line l) \<Longrightarrow>
     tag e \<in> {''img'', ''h1'', ''h2'', ''h3'', ''h4'', ''h5'', ''h6'', ''pre'', ''blockquote'',
              ''li'', ''table-row'', ''p''}"
  by (auto simp: scan_line_def Let_def is_level_def split: if_splits option.splits prod.splits
      dest!: find_first_suffix heading_at_level)

lemma parseHtmlElements_tags:
  "e \<in> set (parseHtmlElements html) \<Longrightarrow>
     tag e \<in> {''img'', ''h1'', ''h2'', ''h3'', ''h4'', ''h5'', ''h6'', ''pre'', ''blockquote'',
              ''li'', ''table-row'', ''p''}"
  unfolding parseHtmlElements_def Let_def using scan_line_tags by auto

lemma heading_block_iff:
  "elementToNotionBlock probe e = Some (Heading n rt) \<longleftrightarrow>
     ((tag e = ''h1'' \<and> n = 1 \<or> tag e = ''h2'' \<and> n = 2 \<or> tag e = ''h3'' \<and> n = 3)
      \<and> rt = htmlToRichText (content e))"
  by (auto simp: elementToNotionBlock_def split: if_splits option.splits attributes.splits)

lemma map_filter_member: "b \<in> set (List.map_filter f xs) \<Longrightarrow> \<exists>x \<in> set xs. f x = Some b"
  by (induction xs) (auto simp: List.map_filter_simps split: option.splits)

text \<open>
  Claim C8, as stated, at the line \<^verbatim>\<open><h4>x</h4>\<close>: the Scanner gives an element tagged
  \<^verbatim>\<open>h4\<close>.
\<close>

theorem scanner_emits_h4_counterexample:
  "parseHtmlElements ''<h4>x</h4>'' = [\<lparr>tag = ''h4'', content = ''x'', attributes = None\<rparr>]"
  by code_simp

text \<open>
  Claim C8, amended.  The Scanner gives elements tagged \<^verbatim>\<open>h1\<close> to \<^verbatim>\<open>h6\<close> (and the seven
  other tags); the Block Builder makes a heading block exactly of the elements tagged
  \<^verbatim>\<open>h1\<close>, \<^verbatim>\<open>h2\<close>, \<^verbatim>\<open>h3\<close>, of level 1, 2, 3, with the tokenized content, and no block of
  an element tagged \<^verbatim>\<open>h4\<close>, \<^verbatim>\<open>h5\<close> or \<^verbatim>\<open>h6\<close>; so every heading block of a conversion
  has level 1, 2 or 3.
\<close>

theorem headings_h1_to_h3_only:
  "(elementToNotionBlock probe e = Some (Heading n rt) \<longleftrightarrow>
     ((tag e = ''h1'' \<and> n = 1 \<or> tag e = ''h2'' \<and> n = 2 \<or> tag e = ''h3'' \<and> n = 3)
      \<and> rt = htmlToRichText (content e)))
   \<and> (tag e \<in> {''h4'', ''h5'', ''h6''} \<longrightarrow> elementToNotionBlock probe e = None)
   \<and> (e \<in> set (parseHtmlElements html) \<longrightarrow>
        tag e \<in> {''img'', ''h1'', ''h2'', ''h3'', ''h4'', ''h5'', ''h6'', ''pre'', ''blockquote'',
                 ''li'', ''table-row'', ''p''})
   \<and> (Heading n rt \<in> set (htmlToNotionBlocks probe html) \<longrightarrow> n \<in> {1, 2, 3})"
proof -
  have "n \<in> {1, 2, 3}" if "Heading n rt \<in> set (htmlToNotionBlocks probe html)"
  proof -
    from that obtain x where "elementToNotionBlock probe x = Some (Heading n rt)"
      unfolding htmlToNotionBlocks_def by (auto dest: map_filter_member)
    then show ?thesis by (auto simp: heading_block_iff)
  qed
  moreover have "tag e \<in> {''h4'', ''h5'', ''h6''} \<longrightarrow> elementToNotionBlock probe e = None"
    by (auto simp: elementToNotionBlock_def)
  ultimately show ?thesis
    using heading_block_iff [of probe e n rt] parseHtmlElements_tags [of e html] by blast
qed

text \<open>The statement at a level-4 and a level-2 heading.\<close>

theorem headings_h1_to_h3_only_witness:
  "tag \<lparr>tag = ''h4'', content = ''x'', attributes = None\<rparr> \<in> {''h4'', ''h5'', ''h6''}
   \<and> \<lparr>tag = ''h4'', content = ''x'', attributes = None\<rparr>
        \<in> set (parseHtmlElements ''<h4>x</h4>\<newline><h2>T</h2>'')
   \<and> elementToNotionBlock (\<lambda>url. True) \<lparr>tag = ''h4'', content = ''x'', attributes = None\<rparr> = None
   \<and> Heading 2 [\<lparr>text_content = ''T'', annotations = []\<rparr>]
        \<in> set (htmlToNotionBlocks (\<lambda>url. True) ''<h4>x</h4>\<newline><h2>T</h2>'')
   \<and> (2::nat) \<in> {1, 2, 3}"
proof -
  have a: "tag \<lparr>tag = ''h4'', content = ''x'', attributes = None\<rparr> \<in> {''h4'', ''h5'', ''h6''}"
    by simp
  have b: "\<lparr>tag = ''h4'', content = ''x'', attributes = None\<rparr>
        \<in> set (parseHtmlElements ''<h4>x</h4>\<newline><h2>T</h2>'')"
    by code_simp
  have c: "Heading 2 [\<lparr>text_content = ''T'', annotations = []\<rparr>]
        \<in> set (htmlToNotionBlocks (\<lambda>url. True) ''<h4>x</h4>\<newline><h2>T</h2>'')"
    by code_simp
  show ?thesis
    using a b c
      headings_h1_to_h3_only [of "\<lambda>url. True" "\<lparr>tag = ''h4'', content = ''x'', attributes = None\<rparr>"
        2 "[\<lparr>text_content = ''T'', annotations = []\<rparr>]" "''<h4>x</h4>\<newline><h2>T</h2>''"]
    by blast
qed

subsection \<open>Batch Submitter\<close>

text \<open>The chunks of the specification and the loop of the code.\<close>

lemma chunks_Nil [simp]: "chunks n [] = []"
  by (simp add: chunks.simps)

lemma chunks_step: "0 < n \<Longrightarrow> xs \<noteq> [] \<Longrightarrow> chunks n xs = take n xs # chunks n (drop n xs)"
  by (subst chunks.simps) simp

lemma chunks_eq_Nil: "0 < n \<Longrightarrow> chunks n xs = [] \<longleftrightarrow> xs = []"
  by (subst chunks.simps) simp

lemma concat_chunks: "0 < n \<Longrightarrow> concat (chunks n xs) = xs"
proof (induction n xs rule: chunks.induct)
  case (1 n xs)
  show ?case
  proof (cases "xs = []")
    case True
    then show ?thesis by simp
  next
    case False
    with 1 show ?thesis by (simp add: chunks_step)
  qed
qed

lemma chunks_bounded: "0 < n \<Longrightarrow> c \<in> set (chunks n xs) \<Longrightarrow> c \<noteq> [] \<and> length c \<le> n"
proof (induction n xs rule: chunks.induct)
  case (1 n xs)
  show ?case
  proof (cases "xs = []")
    case True
    with 1 show ?thesis by simp
  next
    case False
    with 1 show ?thesis by (auto simp: chunks_step)
  qed
qed

lemma with_delays_Cons:
  "with_delays (e # es) = e # (if es = [] then [] else Delay 200 # with_delays es)"
  by (cases es) simp_all

lemma submit_batches_all:
  shows "\<forall>k b. children_append E k pid b = None \<Longrightarrow> submit_batches E pid allBlocks i c tr =
           (Inr (c + (length allBlocks - i)),
            tr @ with_delays (map (ChildrenAppend pid) (chunks BATCH_SIZE (drop i allBlocks))))"
proof (induction E pid allBlocks i c tr rule: submit_batches.induct)
  case (1 E pageId allBlocks i created trace)
  note ok = "1.prems"
  show ?case
  proof (cases "i < length allBlocks")
    case False
    then show ?thesis by (subst submit_batches.simps) simp
  next
    case True
    then have ne: "drop i allBlocks \<noteq> []" by simp
    have pos: "0 < BATCH_SIZE" by (simp add: BATCH_SIZE_def)
    have rest: "chunks BATCH_SIZE (drop (i + BATCH_SIZE) allBlocks) = [] \<longleftrightarrow>
                  \<not> i + BATCH_SIZE < length allBlocks"
      by (auto simp: chunks_eq_Nil [OF pos])
    let ?batch = "take BATCH_SIZE (drop i allBlocks)"
    let ?tr1 = "trace @ [ChildrenAppend pageId ?batch]"
    let ?tr2 = "if i + BATCH_SIZE < length allBlocks then ?tr1 @ [Delay 200] else ?tr1"
    have none: "children_append E (i div BATCH_SIZE) pageId ?batch = None"
      using ok by simp
    have IH: "submit_batches E pageId allBlocks (i + BATCH_SIZE) (created + length ?batch) ?tr2 =
           (Inr (created + length ?batch + (length allBlocks - (i + BATCH_SIZE))),
            ?tr2 @ with_delays (map (ChildrenAppend pageId)
                 (chunks BATCH_SIZE (drop (i + BATCH_SIZE) allBlocks))))"
      using "1.IH" [OF True refl refl none ok] .
    have len: "created + length ?batch + (length allBlocks - (i + BATCH_SIZE))
                 = created + (length allBlocks - i)"
      using True by (simp add: min_def)
    have ch: "chunks BATCH_SIZE (drop i allBlocks) =
                ?batch # chunks BATCH_SIZE (drop (i + BATCH_SIZE) allBlocks)"
      using chunks_step [OF pos ne] by (simp add: add.commute)
    have tr: "?tr2 @ with_delays (map (ChildrenAppend pageId)
                 (chunks BATCH_SIZE (drop (i + BATCH_SIZE) allBlocks)))
              = trace @ with_delays (map (ChildrenAppend pageId) (chunks BATCH_SIZE (drop i allBlocks)))"
      unfolding ch using rest by (simp add: with_delays_Cons)
    have "submit_batches E pageId allBlocks i created trace =
            submit_batches E pageId allBlocks (i + BATCH_SIZE) (created + length ?batch) ?tr2"
      using True none by (subst submit_batches.simps) (simp add: Let_def)
    then show ?thesis using IH len tr by simp
  qed
qed


lemma chunks_252:
  assumes "length xs = 252"
  shows "chunks 100 xs = [take 100 xs, take 100 (drop 100 xs), drop 200 xs]"
    and "map length (chunks 100 xs) = [100, 100, 52]"
proof -
  have a: "xs \<noteq> []" "drop 100 xs \<noteq> []" "drop 200 xs \<noteq> []"
    using assms by auto
  have "chunks 100 xs = take 100 xs # chunks 100 (drop 100 xs)"
    using a by (simp add: chunks_step)
  also have "chunks 100 (drop 100 xs) = take 100 (drop 100 xs) # chunks 100 (drop 200 xs)"
    using a by (simp add: chunks_step)
  also have "chunks 100 (drop 200 xs) = [drop 200 xs]"
    using a assms by (simp add: chunks_step)
  finally show "chunks 100 xs = [take 100 xs, take 100 (drop 100 xs), drop 200 xs]" .
  then show "map length (chunks 100 xs) = [100, 100, 52]"
    using assms by simp
qed

lemma markdownToNotion_success:
  assumes "notionApiKey \<noteq> []" "parentPageId \<noteq> []"
    and "pages_create E parentPageId (resolve_title t md) = Inr pid"
    and "\<forall>k b. children_append E k pid b = None"
  shows "markdownToNotion E md notionApiKey parentPageId t =
     (let html = markdownToHtml E md;
          blocks = htmlToNotionBlocks (verifyImageUrl E) html;
          allBlocks = timestampBlock E # dividerBlock # blocks
      in (Inr \<lparr>success = True, notionPageId = pid, title = resolve_title t md,
                timestamp = toISOString E, blocksCreated = length blocks + 2,
                imagesProcessed = length (filter (\<lambda>b. block_type b = ''image'') blocks),
                batches = (length allBlocks + BATCH_SIZE - 1) div BATCH_SIZE\<rparr>,
          htmlToNotionBlocks_probes html @ [PagesCreate parentPageId (resolve_title t md)]
            @ with_delays (map (ChildrenAppend pid) (chunks BATCH_SIZE allBlocks))))"
  using assms
  by (simp add: markdownToNotion_def try_block_def Let_def submit_batches_all)

lemma map_filter_concat:
  "List.map_filter f xs = concat (map (\<lambda>x. case f x of None \<Rightarrow> [] | Some y \<Rightarrow> [y]) xs)"
  by (induction xs) (auto simp: List.map_filter_simps split: option.splits)

text \<open>
  Claim C4.  When the remote API accepts every submission, the blocks submitted are the
  timestamp paragraph, the divider and the built blocks (those of the scanned elements, in
  scanning order), cut into contiguous chunks of at most 100 that are submitted in order,
  with a delay after every chunk except the last; the run reports \<open>n + 2\<close> blocks created.
  For 250 built blocks there are three submissions, of 100, 100 and 52 blocks, and two
  delays.  The last part states it for a whole run of \<^verbatim>\<open>markdownToNotion\<close>.
\<close>

theorem batches_submitted_in_order:
  "((\<forall>k b. children_append E k pid b = None) \<longrightarrow>
      submit_batches E pid (timestampBlock E # dividerBlock # blocks) 0 0 tr =
        (Inr (length blocks + 2),
         tr @ with_delays (map (ChildrenAppend pid)
                (chunks BATCH_SIZE (timestampBlock E # dividerBlock # blocks)))))
   \<and> concat (chunks BATCH_SIZE (timestampBlock E # dividerBlock # blocks))
        = timestampBlock E # dividerBlock # blocks
   \<and> (c \<in> set (chunks BATCH_SIZE (timestampBlock E # dividerBlock # blocks)) \<longrightarrow>
        c \<noteq> [] \<and> length c \<le> 100)
   \<and> (length blocks = 250 \<longrightarrow>
        map length (chunks BATCH_SIZE (timestampBlock E # dividerBlock # blocks)) = [100, 100, 52]
        \<and> with_delays (map (ChildrenAppend pid)
             (chunks BATCH_SIZE (timestampBlock E # dividerBlock # blocks)))
           = [ChildrenAppend pid (take 100 (timestampBlock E # dividerBlock # blocks)),
              Delay 200,
              ChildrenAppend pid (take 100 (drop 100 (timestampBlock E # dividerBlock # blocks))),
              Delay 200,
              ChildrenAppend pid (drop 200 (timestampBlock E # dividerBlock # blocks))])
   \<and> htmlToNotionBlocks probe html =
        concat (map (\<lambda>e. case elementToNotionBlock probe e of None \<Rightarrow> [] | Some b \<Rightarrow> [b])
                  (parseHtmlElements html))
   \<and> (notionApiKey \<noteq> [] \<longrightarrow> parentPageId \<noteq> [] \<longrightarrow>
        pages_create E parentPageId (resolve_title t md) = Inr pid \<longrightarrow>
        (\<forall>k b. children_append E k pid b = None) \<longrightarrow>
        snd (markdownToNotion E md notionApiKey parentPageId t) =
          htmlToNotionBlocks_probes (markdownToHtml E md)
          @ [PagesCreate parentPageId (resolve_title t md)]
          @ with_delays (map (ChildrenAppend pid)
              (chunks BATCH_SIZE
                 (timestampBlock E # dividerBlock
                    # htmlToNotionBlocks (verifyImageUrl E) (markdownToHtml E md)))))"
proof -
  let ?all = "timestampBlock E # dividerBlock # blocks"
  have pos: "0 < BATCH_SIZE" by (simp add: BATCH_SIZE_def)
  have a: "(\<forall>k b. children_append E k pid b = None) \<longrightarrow>
      submit_batches E pid ?all 0 0 tr =
        (Inr (length blocks + 2),
         tr @ with_delays (map (ChildrenAppend pid) (chunks BATCH_SIZE ?all)))"
    using submit_batches_all [of E pid ?all 0 0 tr] by simp
  have b: "concat (chunks BATCH_SIZE ?all) = ?all"
    using pos by (rule concat_chunks)
  have c: "c \<in> set (chunks BATCH_SIZE ?all) \<longrightarrow> c \<noteq> [] \<and> length c \<le> 100"
    using chunks_bounded [OF pos, of c ?all] by (simp add: BATCH_SIZE_def)
  have d: "length blocks = 250 \<longrightarrow>
        map length (chunks BATCH_SIZE ?all) = [100, 100, 52]
        \<and> with_delays (map (ChildrenAppend pid) (chunks BATCH_SIZE ?all))
           = [ChildrenAppend pid (take 100 ?all), Delay 200,
              ChildrenAppend pid (take 100 (drop 100 ?all)), Delay 200,
              ChildrenAppend pid (drop 200 ?all)]"
  proof
    assume "length blocks = 250"
    then have "length ?all = 252" by simp
    from chunks_252 [OF this] show "map length (chunks BATCH_SIZE ?all) = [100, 100, 52]
        \<and> with_delays (map (ChildrenAppend pid) (chunks BATCH_SIZE ?all))
           = [ChildrenAppend pid (take 100 ?all), Delay 200,
              ChildrenAppend pid (take 100 (drop 100 ?all)), Delay 200,
              ChildrenAppend pid (drop 200 ?all)]"
      by (simp add: BATCH_SIZE_def)
  qed
  have e: "htmlToNotionBlocks probe html =
        concat (map (\<lambda>e. case elementToNotionBlock probe e of None \<Rightarrow> [] | Some b \<Rightarrow> [b])
                  (parseHtmlElements html))"
    by (simp add: htmlToNotionBlocks_def map_filter_concat)
  have f: "notionApiKey \<noteq> [] \<longrightarrow> parentPageId \<noteq> [] \<longrightarrow>
        pages_create E parentPageId (resolve_title t md) = Inr pid \<longrightarrow>
        (\<forall>k b. children_append E k pid b = None) \<longrightarrow>
        snd (markdownToNotion E md notionApiKey parentPageId t) =
          htmlToNotionBlocks_probes (markdownToHtml E md)
          @ [PagesCreate parentPageId (resolve_title t md)]
          @ with_delays (map (ChildrenAppend pid)
              (chunks BATCH_SIZE
                 (timestampBlock E # dividerBlock
                    # htmlToNotionBlocks (verifyImageUrl E) (markdownToHtml E md))))"
    by (simp add: markdownToNotion_success Let_def)
  from a b c d e f show ?thesis by blast
qed

text \<open>The statement at 250 blocks and at a run of the example.\<close>

theorem batches_submitted_in_order_witness:
  "(\<forall>k b. children_append demo_env k ''page-1'' b = None)
   \<and> submit_batches demo_env ''page-1''
        (timestampBlock demo_env # dividerBlock # replicate 250 Divider) 0 0 []
      = (Inr (length (replicate 250 Divider) + 2),
         [] @ with_delays (map (ChildrenAppend ''page-1'')
           (chunks BATCH_SIZE (timestampBlock demo_env # dividerBlock # replicate 250 Divider))))
   \<and> take 100 (timestampBlock demo_env # dividerBlock # replicate 250 Divider)
        \<in> set (chunks BATCH_SIZE (timestampBlock demo_env # dividerBlock # replicate 250 Divider))
   \<and> length (take 100 (timestampBlock demo_env # dividerBlock # replicate 250 Divider)) \<le> 100
   \<and> ''secret'' \<noteq> [] \<and> ''parent'' \<noteq> []
   \<and> pages_create demo_env ''parent'' (resolve_title None ''# Pictures'') = Inr ''page-1''
   \<and> snd (markdownToNotion demo_env ''# Pictures'' ''secret'' ''parent'' None) =
          htmlToNotionBlocks_probes (markdownToHtml demo_env ''# Pictures'')
          @ [PagesCreate ''parent'' (resolve_title None ''# Pictures'')]
          @ with_delays (map (ChildrenAppend ''page-1'')
              (chunks BATCH_SIZE
                 (timestampBlock demo_env # dividerBlock
                    # htmlToNotionBlocks (verifyImageUrl demo_env)
                        (markdownToHtml demo_env ''# Pictures''))))
   \<and> length (replicate 250 Divider) = 250
   \<and> map length (chunks BATCH_SIZE (timestampBlock demo_env # dividerBlock # replicate 250 Divider))
        = [100, 100, 52]
   \<and> with_delays (map (ChildrenAppend ''page-1'')
        (chunks BATCH_SIZE (timestampBlock demo_env # dividerBlock # replicate 250 Divider)))
      = [ChildrenAppend ''page-1''
           (take 100 (timestampBlock demo_env # dividerBlock # replicate 250 Divider)),
         Delay 200,
         ChildrenAppend ''page-1''
           (take 100 (drop 100 (timestampBlock demo_env # dividerBlock # replicate 250 Divider))),
         Delay 200,
         ChildrenAppend ''page-1''
           (drop 200 (timestampBlock demo_env # dividerBlock # replicate 250 Divider))]"
proof -
  let ?all = "timestampBlock demo_env # dividerBlock # replicate 250 Divider"
  have h1: "\<forall>k b. children_append demo_env k ''page-1'' b = None"
    by (simp add: demo_env_def)
  have h2: "length (replicate 250 Divider) = 250" by simp
  have h3: "take 100 ?all \<in> set (chunks BATCH_SIZE ?all)"
    by (subst chunks.simps) (simp add: BATCH_SIZE_def)
  have h4: "pages_create demo_env ''parent'' (resolve_title None ''# Pictures'') = Inr ''page-1''"
    by (simp add: demo_env_def)
  have h5: "''secret'' \<noteq> []" "''parent'' \<noteq> []" by simp_all
  show ?thesis
    using h1 h2 h3 h4 h5
      batches_submitted_in_order [of demo_env "''page-1''" "replicate 250 Divider" "[]"
        "take 100 ?all" _ _ "''secret''" "''parent''" None "''# Pictures''"]
    by blast
qed

subsection \<open>Counting images\<close>

lemma image_block_iff:
  "(\<exists>b. elementToNotionBlock v e = Some b \<and> block_type b = ''image'') \<longleftrightarrow> verified_image v e"
  by (auto simp: elementToNotionBlock_def verified_image_def split: if_splits option.splits attributes.splits)

lemma count_images:
  "length (filter (\<lambda>b. block_type b = ''image'') (List.map_filter (elementToNotionBlock v) es))
     = length (filter (verified_image v) es)"
proof (induction es)
  case Nil
  show ?case by (simp add: List.map_filter_simps)
next
  case (Cons e es)
  show ?case
  proof (cases "elementToNotionBlock v e")
    case None
    with image_block_iff [of v e] have "\<not> verified_image v e" by simp
    with None Cons show ?thesis by (simp add: List.map_filter_simps)
  next
    case (Some b)
    with image_block_iff [of v e] have "verified_image v e \<longleftrightarrow> block_type b = ''image''" by simp
    with Some Cons show ?thesis by (simp add: List.map_filter_simps)
  qed
qed

text \<open>
  Claim C1, as stated, at the example run: the Scanner gives three image elements, the
  probe of the second fails and its block is a callout, and \<^verbatim>\<open>imagesProcessed\<close> is 2, not
  3.
\<close>

theorem imagesProcessed_skips_failed_image_counterexample:
  "map tag (parseHtmlElements (markdownToHtml demo_env ''# Pictures'')) = [''img'', ''img'', ''img'']
   \<and> map (verified_image (verifyImageUrl demo_env))
        (parseHtmlElements (markdownToHtml demo_env ''# Pictures'')) = [True, False, True]
   \<and> map block_type (htmlToNotionBlocks (verifyImageUrl demo_env)
        (markdownToHtml demo_env ''# Pictures'')) = [''image'', ''callout'', ''image'']
   \<and> fst (markdownToNotion demo_env ''# Pictures'' ''secret'' ''parent'' None)
     = Inr \<lparr>success = True, notionPageId = ''page-1'', title = ''Pictures'',
             timestamp = ''2024-01-01T12:00:00.000Z'', blocksCreated = 5,
             imagesProcessed = 2, batches = 1\<rparr>
   \<and> imagesProcessed
        \<lparr>success = True, notionPageId = ''page-1'', title = ''Pictures'',
          timestamp = ''2024-01-01T12:00:00.000Z'', blocksCreated = 5,
          imagesProcessed = 2, batches = 1\<rparr> \<noteq> 3"
  by code_simp

text \<open>
  Claim C1, amended.  \<^verbatim>\<open>imagesProcessed\<close> counts the image blocks built: the image elements
  that have a non-empty \<^verbatim>\<open>src\<close> and pass the probe.  An image whose probe fails is not
  counted, so the count is at most the number of image elements.
\<close>

theorem imagesProcessed_counts_image_blocks:
  "fst (markdownToNotion E md notionApiKey parentPageId t) = Inr r \<Longrightarrow>
     imagesProcessed r =
       length (filter (verified_image (verifyImageUrl E)) (parseHtmlElements (markdownToHtml E md)))
     \<and> imagesProcessed r
         \<le> length (filter (\<lambda>e. tag e = ''img'') (parseHtmlElements (markdownToHtml E md)))"
proof -
  assume ok: "fst (markdownToNotion E md notionApiKey parentPageId t) = Inr r"
  let ?es = "parseHtmlElements (markdownToHtml E md)"
  from ok have "imagesProcessed r =
      length (filter (\<lambda>b. block_type b = ''image'')
        (htmlToNotionBlocks (verifyImageUrl E) (markdownToHtml E md)))"
    by (auto simp: markdownToNotion_def try_block_def Let_def
        split: if_splits sum.splits prod.splits)
  then have eq: "imagesProcessed r = length (filter (verified_image (verifyImageUrl E)) ?es)"
    by (simp add: htmlToNotionBlocks_def count_images)
  have "length (filter (verified_image probe) es) \<le> length (filter (\<lambda>e. tag e = ''img'') es)"
    for probe and es :: "element list"
    by (induction es) (auto simp: verified_image_def)
  with eq show ?thesis by simp
qed

text \<open>The statement at the example run.\<close>

theorem imagesProcessed_counts_image_blocks_witness:
  "fst (markdownToNotion demo_env ''# Pictures'' ''secret'' ''parent'' None)
     = Inr \<lparr>success = True, notionPageId = ''page-1'', title = ''Pictures'',
             timestamp = ''2024-01-01T12:00:00.000Z'', blocksCreated = 5,
             imagesProcessed = 2, batches = 1\<rparr>
   \<and> length (filter (verified_image (verifyImageUrl demo_env))
        (parseHtmlElements (markdownToHtml demo_env ''# Pictures''))) = 2"
proof -
  have h: "fst (markdownToNotion demo_env ''# Pictures'' ''secret'' ''parent'' None)
     = Inr \<lparr>success = True, notionPageId = ''page-1'', title = ''Pictures'',
             timestamp = ''2024-01-01T12:00:00.000Z'', blocksCreated = 5,
             imagesProcessed = 2, batches = 1\<rparr>"
    by code_simp
  show ?thesis
    using h imagesProcessed_counts_image_blocks [OF h] by simp
qed

subsection \<open>Missing required fields\<close>

text \<open>Every error of \<^verbatim>\<open>markdownToNotion\<close> has status 500.\<close>

lemma markdownToNotion_failure_status:
  "fst (markdownToNotion E md notionApiKey parentPageId t) = Inl err \<Longrightarrow> statusCode err = 500"
  by (auto simp: markdownToNotion_def catch_block_def createError_def
      split: prod.splits sum.splits thrown.splits)

text \<open>
  Claim C2.  The claim has a call with an empty API key or an empty parent page
  identifier fail with a 400-class error before any remote call.  No remote call is made,
  and the error is made with status 400, but it is thrown inside the \<^verbatim>\<open>try\<close> block, whose
  \<^verbatim>\<open>catch\<close> wraps every error into one of status 500: the call fails with status 500.
\<close>

theorem missing_field_rejected_with_500:
  "markdownToNotion E md [] parentPageId t
     = (Inl \<lparr>message = msg_create_failed @ msg_missing_key, statusCode = 500\<rparr>, [])
   \<and> markdownToNotion E md ''secret'' [] t
     = (Inl \<lparr>message = msg_create_failed @ msg_missing_page, statusCode = 500\<rparr>, [])
   \<and> try_block E md [] parentPageId t
     = (Inl (Created \<lparr>message = msg_missing_key, statusCode = 400\<rparr>), [])"
  by (simp add: markdownToNotion_def try_block_def catch_block_def createError_def)

end
